theory Spec2Isabelle
  imports Main "HOL-Library.Word"
begin

unbundle bit_operations_syntax

section \<open>Machine integers\<close>

type_synonym u8 = "8 word"
type_synonym u16 = "16 word"
type_synonym u32 = "32 word"
type_synonym u64 = "64 word"

text \<open>C's \<open>!!x\<close>: 1 when \<open>x\<close> is non-zero, 0 otherwise.\<close>

definition lnotnot :: "'a::len word \<Rightarrow> u32" where
  "lnotnot x = (if x = 0 then 0 else 1)"

section \<open>parity.h\<close>

text \<open>
  \<open>evenparity32\<close> is compiled on its GCC branch, \<open>__builtin_parity(x) & 0xFF\<close>.
  Modelled from the spec: the builtin itself is the compiler's; it is the "even-parity"
  of section 4.2, the number of 1-bits of \<open>x\<close> modulo 2.
\<close>

definition builtin_parity :: "u32 \<Rightarrow> u32" where
  "builtin_parity x = of_bool (odd (length (filter (bit x) [0..<32])))"

definition evenparity32 :: "u32 \<Rightarrow> u8" where
  "evenparity32 x = ucast (builtin_parity x AND 0xFF)"

section \<open>mf1\_crapto1.h\<close>

definition LF_POLY_ODD :: u32 where
  "LF_POLY_ODD = 0x29CE5C"

definition LF_POLY_EVEN :: u32 where
  "LF_POLY_EVEN = 0x870804"

text \<open>\<open>#define BIT(x, n) (((x) >> (n)) & 1)\<close> and \<open>#define BEBIT(x, n) BIT(x, (n) ^ 24)\<close>.\<close>

definition BIT :: "'a::len word \<Rightarrow> nat \<Rightarrow> 'a word" where
  "BIT x n = drop_bit n x AND 1"

definition BEBIT :: "'a::len word \<Rightarrow> nat \<Rightarrow> 'a word" where
  "BEBIT x n = BIT x (n XOR 24)"

record Crypto1State =
  s_odd :: u32
  s_even :: u32

text \<open>The filter function \<open>filter\<close> of the header (the name is taken by lists here).\<close>

definition filter_crapto1 :: "u32 \<Rightarrow> u32" where
  "filter_crapto1 x =
     (let f = drop_bit (unat (x AND 0xf)) (0xf22c0 :: u32) AND 16;
          f = f OR (drop_bit (unat (drop_bit 4 x AND 0xf)) (0x6c9c0 :: u32) AND 8);
          f = f OR (drop_bit (unat (drop_bit 8 x AND 0xf)) (0x3c8b0 :: u32) AND 4);
          f = f OR (drop_bit (unat (drop_bit 12 x AND 0xf)) (0x1e458 :: u32) AND 2);
          f = f OR (drop_bit (unat (drop_bit 16 x AND 0xf)) (0x0d938 :: u32) AND 1)
      in BIT (0xEC57E80A :: u32) (unat f))"

section \<open>crypto1.c\<close>

text \<open>
  \<open>crypto1_init\<close>: the state pointer may be \<open>NULL\<close> (\<open>None\<close>), and then nothing happens.
  The loop runs \<open>i = 47, 45, ..., 1\<close>.
\<close>

function crypto1_init_loop :: "int \<Rightarrow> Crypto1State \<Rightarrow> u64 \<Rightarrow> Crypto1State" where
  "crypto1_init_loop i state key =
     (if i > 0 then
        crypto1_init_loop (i - 2)
          \<lparr> s_odd = ucast (ucast (push_bit 1 (s_odd state)) OR BIT key (nat ((i - 1) XOR 7))),
            s_even = ucast (ucast (push_bit 1 (s_even state)) OR BIT key (nat (i XOR 7))) \<rparr>
          key
      else state)"
  by pat_completeness auto
termination
  by (relation "measure (\<lambda>(i, state, key). nat i)") auto

definition crypto1_init :: "Crypto1State option \<Rightarrow> u64 \<Rightarrow> Crypto1State option" where
  "crypto1_init state key =
     (case state of
        None \<Rightarrow> None
      | Some s \<Rightarrow> Some (crypto1_init_loop 47 \<lparr> s_odd = 0, s_even = 0 \<rparr> key))"

function crypto1_get_lfsr_loop :: "int \<Rightarrow> Crypto1State \<Rightarrow> u64 \<Rightarrow> u64" where
  "crypto1_get_lfsr_loop i state lfsr =
     (if i \<ge> 0 then
        (let lfsr = push_bit 1 lfsr OR ucast (BIT (s_odd state) (nat (i XOR 3)));
             lfsr = push_bit 1 lfsr OR ucast (BIT (s_even state) (nat (i XOR 3)))
         in crypto1_get_lfsr_loop (i - 1) state lfsr)
      else lfsr)"
  by pat_completeness auto
termination
  by (relation "measure (\<lambda>(i, state, lfsr). nat (i + 1))") auto

definition crypto1_get_lfsr :: "Crypto1State \<Rightarrow> u64" where
  "crypto1_get_lfsr state = crypto1_get_lfsr_loop 23 state 0"

text \<open>\<open>crypto1_bit\<close> returns the new state and the output bit.\<close>

definition crypto1_bit :: "Crypto1State \<Rightarrow> u8 \<Rightarrow> u32 \<Rightarrow> Crypto1State \<times> u8" where
  "crypto1_bit s inp is_encrypted =
     (let ret = (ucast (filter_crapto1 (s_odd s)) :: u8);
          feedin = ucast ret AND lnotnot is_encrypted;
          feedin = feedin XOR lnotnot inp;
          feedin = feedin XOR (LF_POLY_ODD AND s_odd s);
          feedin = feedin XOR (LF_POLY_EVEN AND s_even s);
          t = s_odd s
      in (\<lparr> s_odd = s_even s, s_even = push_bit 1 t OR ucast (evenparity32 feedin) \<rparr>, ret))"

function crypto1_byte_loop :: "nat \<Rightarrow> Crypto1State \<Rightarrow> u8 \<Rightarrow> u32 \<Rightarrow> u8 \<Rightarrow> Crypto1State \<times> u8" where
  "crypto1_byte_loop i s inp is_encrypted ret =
     (if i < 8 then
        (let (s', b) = crypto1_bit s (BIT inp i) is_encrypted
         in crypto1_byte_loop (i + 1) s' inp is_encrypted (ret OR push_bit i b))
      else (s, ret))"
  by pat_completeness auto
termination
  by (relation "measure (\<lambda>(i, s, inp, e, ret). 8 - i)") auto

definition crypto1_byte :: "Crypto1State \<Rightarrow> u8 \<Rightarrow> u32 \<Rightarrow> Crypto1State \<times> u8" where
  "crypto1_byte s inp is_encrypted = crypto1_byte_loop 0 s inp is_encrypted 0"

function crypto1_word_loop :: "nat \<Rightarrow> Crypto1State \<Rightarrow> u32 \<Rightarrow> u32 \<Rightarrow> u32 \<Rightarrow> Crypto1State \<times> u32" where
  "crypto1_word_loop i s inp is_encrypted ret =
     (if i < 32 then
        (let (s', b) = crypto1_bit s (ucast (BEBIT inp i)) is_encrypted
         in crypto1_word_loop (i + 1) s' inp is_encrypted
              (ret OR push_bit ((24 XOR i) AND 0x1F) (ucast b)))
      else (s, ret))"
  by pat_completeness auto
termination
  by (relation "measure (\<lambda>(i, s, inp, e, ret). 32 - i)") auto

definition crypto1_word :: "Crypto1State \<Rightarrow> u32 \<Rightarrow> u32 \<Rightarrow> Crypto1State \<times> u32" where
  "crypto1_word s inp is_encrypted = crypto1_word_loop 0 s inp is_encrypted 0"

text \<open>
  The composition of single-bit clocks that section 8 (property 6) compares
  \<open>crypto1_word\<close> with: \<open>crypto1_bit\<close> called once per input bit, in list order, the
  returned bits collected in call order.
\<close>

fun crypto1_bit_seq :: "Crypto1State \<Rightarrow> u8 list \<Rightarrow> u32 \<Rightarrow> Crypto1State \<times> u8 list" where
  "crypto1_bit_seq s [] e = (s, [])"
| "crypto1_bit_seq s (x # xs) e =
     (let (s1, b) = crypto1_bit s x e;
          (s2, bs) = crypto1_bit_seq s1 xs e
      in (s2, b # bs))"

text \<open>
  Modelled from the spec: \<open>__REV\<close> is the CMSIS byte-reverse intrinsic, not defined in
  the sources; section 4.9 calls it "byte-swap".
\<close>

definition REV :: "u32 \<Rightarrow> u32" where
  "REV x = push_bit 24 x OR (push_bit 8 x AND 0xFF0000)
           OR (drop_bit 8 x AND 0xFF00) OR drop_bit 24 x"

text \<open>The loop body \<open>x = x >> 1 | (x >> 16 ^ x >> 18 ^ x >> 19 ^ x >> 21) << 31\<close>.\<close>

definition prng_step :: "u32 \<Rightarrow> u32" where
  "prng_step x =
     drop_bit 1 x OR push_bit 31 (drop_bit 16 x XOR drop_bit 18 x XOR drop_bit 19 x XOR drop_bit 21 x)"

function prng_for16 :: "nat \<Rightarrow> u32 \<Rightarrow> u32" where
  "prng_for16 i x = (if i < 16 then prng_for16 (i + 1) (prng_step x) else x)"
  by pat_completeness auto
termination
  by (relation "measure (\<lambda>(i, x). 16 - i)") auto

function prng_while :: "u32 \<Rightarrow> u32 \<Rightarrow> u32" where
  "prng_while n x = (if n \<noteq> 0 then prng_while (n - 1) (prng_step x) else x)"
  by pat_completeness auto
termination
  by (relation "measure (\<lambda>(n, x). unat n)") (auto simp: unat_minus_one unat_gt_0 intro!: diff_less)

definition prng_successor :: "u32 \<Rightarrow> u32 \<Rightarrow> u32" where
  "prng_successor x n =
     (let x = REV x;
          x = (if n = 1 then prng_step x
               else if n = 16 then prng_for16 0 x
               else prng_while n x)
      in REV x)"

text \<open>The reference definition of section 4.9, in the spec's words.\<close>

definition prng_step_spec :: "u32 \<Rightarrow> u32" where
  "prng_step_spec x =
     drop_bit 1 x OR
     push_bit 31 ((drop_bit 16 x XOR drop_bit 18 x XOR drop_bit 19 x XOR drop_bit 21 x) AND 1)"

definition prng_successor_spec :: "u32 \<Rightarrow> nat \<Rightarrow> u32" where
  "prng_successor_spec x n = REV ((prng_step_spec ^^ n) (REV x))"

section \<open>hex\_utils.c\<close>

text \<open>
  \<open>bytes_to_num\<close> reads a big-endian byte array. Arrays are lists; the callers pass at
  least \<open>len\<close> bytes.
\<close>

fun bytes_to_num_loop :: "u8 list \<Rightarrow> u64 \<Rightarrow> u64" where
  "bytes_to_num_loop [] num = num"
| "bytes_to_num_loop (b # bs) num = bytes_to_num_loop bs (push_bit 8 num OR ucast b)"

definition bytes_to_num :: "u8 list \<Rightarrow> u8 \<Rightarrow> u64" where
  "bytes_to_num src len =
     (if len = 4 then
        ucast (push_bit 24 (ucast (src ! 0) :: u32) OR push_bit 16 (ucast (src ! 1))
               OR push_bit 8 (ucast (src ! 2)) OR ucast (src ! 3))
      else if len = 2 then
        ucast (push_bit 8 (ucast (src ! 0) :: u32) OR ucast (src ! 1))
      else if len = 1 then ucast (src ! 0)
      else if len = 0 then 0
      else bytes_to_num_loop (take (unat len) src) 0)"

section \<open>mf1\_crypto1.c: the tag PRNG\<close>

text \<open>
  One pass of the \<open>while (ClockCount >= 32)\<close> body of \<open>Crypto1PRNG\<close>: three chunked
  updates of 11, 11 and 10 bits. \<open>Feedback\<close> is a \<open>uint16_t\<close>.
\<close>

definition Crypto1PRNG_body :: "u32 \<Rightarrow> u32" where
  "Crypto1PRNG_body Temp =
     (let Feedback = (ucast (drop_bit 16 Temp) :: u16);
          Feedback = Feedback XOR drop_bit 3 Feedback;
          Feedback = Feedback XOR drop_bit 2 Feedback;
          Temp = drop_bit 11 Temp OR push_bit (32 - 11) (ucast Feedback);
          Feedback = (ucast (drop_bit 16 Temp) :: u16);
          Feedback = Feedback XOR drop_bit 3 Feedback;
          Feedback = Feedback XOR drop_bit 2 Feedback;
          Temp = drop_bit 11 Temp OR push_bit (32 - 11) (ucast Feedback);
          Feedback = (ucast (drop_bit 16 Temp) :: u16);
          Feedback = Feedback XOR drop_bit 3 Feedback;
          Feedback = Feedback XOR drop_bit 2 Feedback;
          Temp = drop_bit 10 Temp OR push_bit (32 - 10) (ucast Feedback)
      in Temp)"

function Crypto1PRNG_loop :: "u32 \<Rightarrow> u8 \<Rightarrow> u32" where
  "Crypto1PRNG_loop Temp ClockCount =
     (if ClockCount \<ge> 32 then Crypto1PRNG_loop (Crypto1PRNG_body Temp) (ClockCount - 32)
      else Temp)"
  by pat_completeness auto
termination
  by (relation "measure (\<lambda>(Temp, ClockCount). unat ClockCount)")
     (auto simp: unat_sub word_le_nat_alt)

text \<open>\<open>Crypto1PRNG\<close> returns the new contents of the 4-byte \<open>State\<close> array.\<close>

definition Crypto1PRNG :: "u8 list \<Rightarrow> u8 \<Rightarrow> u8 list" where
  "Crypto1PRNG State ClockCount =
     (let Temp = (ucast (State ! 0) :: u32) OR push_bit 8 (ucast (State ! 1))
                 OR push_bit 16 (ucast (State ! 2)) OR push_bit 24 (ucast (State ! 3));
          Temp = Crypto1PRNG_loop Temp ClockCount
      in State[0 := ucast Temp, 1 := ucast (drop_bit 8 Temp),
               2 := ucast (drop_bit 16 Temp), 3 := ucast (drop_bit 24 Temp)])"

text \<open>
  The 32-bit value that a 4-byte array holds in big-endian order, as \<open>bytes_to_num\<close>
  reads it.
\<close>

definition be32 :: "u8 list \<Rightarrow> u32" where
  "be32 xs = ucast (bytes_to_num xs 4)"

text \<open>Auxiliary notions for the proofs about the PRNG: the feedback bit that step
  \<open>j\<close> shifts in, and one chunked update by \<open>k\<close> bits.\<close>

definition fbit :: "u32 \<Rightarrow> nat \<Rightarrow> bool" where
  "fbit T j \<longleftrightarrow> ((bit T (16 + j) \<noteq> bit T (18 + j)) \<noteq> bit T (19 + j)) \<noteq> bit T (21 + j)"

definition chunk :: "nat \<Rightarrow> u32 \<Rightarrow> u32" where
  "chunk k Temp =
     (let Feedback = (ucast (drop_bit 16 Temp) :: u16);
          Feedback = Feedback XOR drop_bit 3 Feedback;
          Feedback = Feedback XOR drop_bit 2 Feedback
      in drop_bit k Temp OR push_bit (32 - k) (ucast Feedback))"

section \<open>mf1\_crypto1.c: the byte-split cipher\<close>

text \<open>The macro \<open>FC\<close> of the filter network; its arguments are 0 or 1.\<close>

definition FC :: "u8 \<Rightarrow> u8 \<Rightarrow> u8 \<Rightarrow> u8 \<Rightarrow> u8 \<Rightarrow> u8" where
  "FC x4 x3 x2 x1 x0 =
     ((x0 OR ((x1 OR x4) AND (x3 XOR x4))) XOR ((x0 XOR (x1 AND x3)) AND ((x2 XOR x3) OR (x1 AND x4))))"

text \<open>The three rows of \<open>abFilterTable[3][256]\<close>.\<close>

definition abFilterTable0 :: "u8 list" where
  "abFilterTable0 =
    [0x00, 0x00, 0x00, 0x00, 0x00, 0x00, 0x00, 0x00,
     0x00, 0x00, 0x00, 0x00, 0x00, 0x00, 0x00, 0x00,
     0x01, 0x01, 0x01, 0x01, 0x01, 0x01, 0x01, 0x01,
     0x01, 0x01, 0x01, 0x01, 0x01, 0x01, 0x01, 0x01,
     0x01, 0x01, 0x01, 0x01, 0x01, 0x01, 0x01, 0x01,
     0x01, 0x01, 0x01, 0x01, 0x01, 0x01, 0x01, 0x01,
     0x01, 0x01, 0x01, 0x01, 0x01, 0x01, 0x01, 0x01,
     0x01, 0x01, 0x01, 0x01, 0x01, 0x01, 0x01, 0x01,
     0x00, 0x00, 0x00, 0x00, 0x00, 0x00, 0x00, 0x00,
     0x00, 0x00, 0x00, 0x00, 0x00, 0x00, 0x00, 0x00,
     0x00, 0x00, 0x00, 0x00, 0x00, 0x00, 0x00, 0x00,
     0x00, 0x00, 0x00, 0x00, 0x00, 0x00, 0x00, 0x00,
     0x00, 0x00, 0x00, 0x00, 0x00, 0x00, 0x00, 0x00,
     0x00, 0x00, 0x00, 0x00, 0x00, 0x00, 0x00, 0x00,
     0x01, 0x01, 0x01, 0x01, 0x01, 0x01, 0x01, 0x01,
     0x01, 0x01, 0x01, 0x01, 0x01, 0x01, 0x01, 0x01,
     0x00, 0x00, 0x00, 0x00, 0x00, 0x00, 0x00, 0x00,
     0x00, 0x00, 0x00, 0x00, 0x00, 0x00, 0x00, 0x00,
     0x00, 0x00, 0x00, 0x00, 0x00, 0x00, 0x00, 0x00,
     0x00, 0x00, 0x00, 0x00, 0x00, 0x00, 0x00, 0x00,
     0x01, 0x01, 0x01, 0x01, 0x01, 0x01, 0x01, 0x01,
     0x01, 0x01, 0x01, 0x01, 0x01, 0x01, 0x01, 0x01,
     0x00, 0x00, 0x00, 0x00, 0x00, 0x00, 0x00, 0x00,
     0x00, 0x00, 0x00, 0x00, 0x00, 0x00, 0x00, 0x00,
     0x01, 0x01, 0x01, 0x01, 0x01, 0x01, 0x01, 0x01,
     0x01, 0x01, 0x01, 0x01, 0x01, 0x01, 0x01, 0x01,
     0x01, 0x01, 0x01, 0x01, 0x01, 0x01, 0x01, 0x01,
     0x01, 0x01, 0x01, 0x01, 0x01, 0x01, 0x01, 0x01,
     0x00, 0x00, 0x00, 0x00, 0x00, 0x00, 0x00, 0x00,
     0x00, 0x00, 0x00, 0x00, 0x00, 0x00, 0x00, 0x00,
     0x01, 0x01, 0x01, 0x01, 0x01, 0x01, 0x01, 0x01,
     0x01, 0x01, 0x01, 0x01, 0x01, 0x01, 0x01, 0x01]"

definition abFilterTable1 :: "u8 list" where
  "abFilterTable1 =
    [0x00, 0x00, 0x00, 0x02, 0x02, 0x00, 0x00, 0x02,
     0x00, 0x02, 0x02, 0x02, 0x02, 0x00, 0x00, 0x02,
     0x00, 0x00, 0x00, 0x02, 0x02, 0x00, 0x00, 0x02,
     0x00, 0x02, 0x02, 0x02, 0x02, 0x00, 0x00, 0x02,
     0x00, 0x00, 0x00, 0x02, 0x02, 0x00, 0x00, 0x02,
     0x00, 0x02, 0x02, 0x02, 0x02, 0x00, 0x00, 0x02,
     0x04, 0x04, 0x04, 0x06, 0x06, 0x04, 0x04, 0x06,
     0x04, 0x06, 0x06, 0x06, 0x06, 0x04, 0x04, 0x06,
     0x04, 0x04, 0x04, 0x06, 0x06, 0x04, 0x04, 0x06,
     0x04, 0x06, 0x06, 0x06, 0x06, 0x04, 0x04, 0x06,
     0x00, 0x00, 0x00, 0x02, 0x02, 0x00, 0x00, 0x02,
     0x00, 0x02, 0x02, 0x02, 0x02, 0x00, 0x00, 0x02,
     0x00, 0x00, 0x00, 0x02, 0x02, 0x00, 0x00, 0x02,
     0x00, 0x02, 0x02, 0x02, 0x02, 0x00, 0x00, 0x02,
     0x04, 0x04, 0x04, 0x06, 0x06, 0x04, 0x04, 0x06,
     0x04, 0x06, 0x06, 0x06, 0x06, 0x04, 0x04, 0x06,
     0x00, 0x00, 0x00, 0x02, 0x02, 0x00, 0x00, 0x02,
     0x00, 0x02, 0x02, 0x02, 0x02, 0x00, 0x00, 0x02,
     0x04, 0x04, 0x04, 0x06, 0x06, 0x04, 0x04, 0x06,
     0x04, 0x06, 0x06, 0x06, 0x06, 0x04, 0x04, 0x06,
     0x04, 0x04, 0x04, 0x06, 0x06, 0x04, 0x04, 0x06,
     0x04, 0x06, 0x06, 0x06, 0x06, 0x04, 0x04, 0x06,
     0x04, 0x04, 0x04, 0x06, 0x06, 0x04, 0x04, 0x06,
     0x04, 0x06, 0x06, 0x06, 0x06, 0x04, 0x04, 0x06,
     0x04, 0x04, 0x04, 0x06, 0x06, 0x04, 0x04, 0x06,
     0x04, 0x06, 0x06, 0x06, 0x06, 0x04, 0x04, 0x06,
     0x00, 0x00, 0x00, 0x02, 0x02, 0x00, 0x00, 0x02,
     0x00, 0x02, 0x02, 0x02, 0x02, 0x00, 0x00, 0x02,
     0x00, 0x00, 0x00, 0x02, 0x02, 0x00, 0x00, 0x02,
     0x00, 0x02, 0x02, 0x02, 0x02, 0x00, 0x00, 0x02,
     0x04, 0x04, 0x04, 0x06, 0x06, 0x04, 0x04, 0x06,
     0x04, 0x06, 0x06, 0x06, 0x06, 0x04, 0x04, 0x06]"

definition abFilterTable2 :: "u8 list" where
  "abFilterTable2 =
    [0x00, 0x08, 0x08, 0x08, 0x00, 0x00, 0x00, 0x08,
     0x00, 0x00, 0x08, 0x00, 0x08, 0x08, 0x00, 0x08,
     0x00, 0x08, 0x08, 0x08, 0x00, 0x00, 0x00, 0x08,
     0x00, 0x00, 0x08, 0x00, 0x08, 0x08, 0x00, 0x08,
     0x00, 0x08, 0x08, 0x08, 0x00, 0x00, 0x00, 0x08,
     0x00, 0x00, 0x08, 0x00, 0x08, 0x08, 0x00, 0x08,
     0x10, 0x18, 0x18, 0x18, 0x10, 0x10, 0x10, 0x18,
     0x10, 0x10, 0x18, 0x10, 0x18, 0x18, 0x10, 0x18,
     0x10, 0x18, 0x18, 0x18, 0x10, 0x10, 0x10, 0x18,
     0x10, 0x10, 0x18, 0x10, 0x18, 0x18, 0x10, 0x18,
     0x00, 0x08, 0x08, 0x08, 0x00, 0x00, 0x00, 0x08,
     0x00, 0x00, 0x08, 0x00, 0x08, 0x08, 0x00, 0x08,
     0x00, 0x08, 0x08, 0x08, 0x00, 0x00, 0x00, 0x08,
     0x00, 0x00, 0x08, 0x00, 0x08, 0x08, 0x00, 0x08,
     0x10, 0x18, 0x18, 0x18, 0x10, 0x10, 0x10, 0x18,
     0x10, 0x10, 0x18, 0x10, 0x18, 0x18, 0x10, 0x18,
     0x00, 0x08, 0x08, 0x08, 0x00, 0x00, 0x00, 0x08,
     0x00, 0x00, 0x08, 0x00, 0x08, 0x08, 0x00, 0x08,
     0x10, 0x18, 0x18, 0x18, 0x10, 0x10, 0x10, 0x18,
     0x10, 0x10, 0x18, 0x10, 0x18, 0x18, 0x10, 0x18,
     0x10, 0x18, 0x18, 0x18, 0x10, 0x10, 0x10, 0x18,
     0x10, 0x10, 0x18, 0x10, 0x18, 0x18, 0x10, 0x18,
     0x10, 0x18, 0x18, 0x18, 0x10, 0x10, 0x10, 0x18,
     0x10, 0x10, 0x18, 0x10, 0x18, 0x18, 0x10, 0x18,
     0x10, 0x18, 0x18, 0x18, 0x10, 0x10, 0x10, 0x18,
     0x10, 0x10, 0x18, 0x10, 0x18, 0x18, 0x10, 0x18,
     0x00, 0x08, 0x08, 0x08, 0x00, 0x00, 0x00, 0x08,
     0x00, 0x00, 0x08, 0x00, 0x08, 0x08, 0x00, 0x08,
     0x00, 0x08, 0x08, 0x08, 0x00, 0x00, 0x00, 0x08,
     0x00, 0x00, 0x08, 0x00, 0x08, 0x08, 0x00, 0x08,
     0x10, 0x18, 0x18, 0x18, 0x10, 0x10, 0x10, 0x18,
     0x10, 0x10, 0x18, 0x10, 0x18, 0x18, 0x10, 0x18]"

definition TableC0 :: "u8 list" where
  "TableC0 =
    [FC 0 0 0 0 0, FC 0 0 0 0 1, FC 0 0 0 1 0, FC 0 0 0 1 1,
     FC 0 0 1 0 0, FC 0 0 1 0 1, FC 0 0 1 1 0, FC 0 0 1 1 1,
     FC 0 1 0 0 0, FC 0 1 0 0 1, FC 0 1 0 1 0, FC 0 1 0 1 1,
     FC 0 1 1 0 0, FC 0 1 1 0 1, FC 0 1 1 1 0, FC 0 1 1 1 1,
     FC 1 0 0 0 0, FC 1 0 0 0 1, FC 1 0 0 1 0, FC 1 0 0 1 1,
     FC 1 0 1 0 0, FC 1 0 1 0 1, FC 1 0 1 1 0, FC 1 0 1 1 1,
     FC 1 1 0 0 0, FC 1 1 0 0 1, FC 1 1 0 1 0, FC 1 1 0 1 1,
     FC 1 1 1 0 0, FC 1 1 1 0 1, FC 1 1 1 1 0, FC 1 1 1 1 1]"

definition TableC7 :: "u8 list" where
  "TableC7 =
    [push_bit 7 (FC 0 0 0 0 0), push_bit 7 (FC 0 0 0 0 1), push_bit 7 (FC 0 0 0 1 0), push_bit 7 (FC 0 0 0 1 1),
     push_bit 7 (FC 0 0 1 0 0), push_bit 7 (FC 0 0 1 0 1), push_bit 7 (FC 0 0 1 1 0), push_bit 7 (FC 0 0 1 1 1),
     push_bit 7 (FC 0 1 0 0 0), push_bit 7 (FC 0 1 0 0 1), push_bit 7 (FC 0 1 0 1 0), push_bit 7 (FC 0 1 0 1 1),
     push_bit 7 (FC 0 1 1 0 0), push_bit 7 (FC 0 1 1 0 1), push_bit 7 (FC 0 1 1 1 0), push_bit 7 (FC 0 1 1 1 1),
     push_bit 7 (FC 1 0 0 0 0), push_bit 7 (FC 1 0 0 0 1), push_bit 7 (FC 1 0 0 1 0), push_bit 7 (FC 1 0 0 1 1),
     push_bit 7 (FC 1 0 1 0 0), push_bit 7 (FC 1 0 1 0 1), push_bit 7 (FC 1 0 1 1 0), push_bit 7 (FC 1 0 1 1 1),
     push_bit 7 (FC 1 1 0 0 0), push_bit 7 (FC 1 1 0 0 1), push_bit 7 (FC 1 1 0 1 0), push_bit 7 (FC 1 1 0 1 1),
     push_bit 7 (FC 1 1 1 0 0), push_bit 7 (FC 1 1 1 0 1), push_bit 7 (FC 1 1 1 1 0), push_bit 7 (FC 1 1 1 1 1)]"

definition TableC3 :: "u8 list" where
  "TableC3 =
    [push_bit 3 (FC 0 0 0 0 0), push_bit 3 (FC 0 0 0 0 1), push_bit 3 (FC 0 0 0 1 0), push_bit 3 (FC 0 0 0 1 1),
     push_bit 3 (FC 0 0 1 0 0), push_bit 3 (FC 0 0 1 0 1), push_bit 3 (FC 0 0 1 1 0), push_bit 3 (FC 0 0 1 1 1),
     push_bit 3 (FC 0 1 0 0 0), push_bit 3 (FC 0 1 0 0 1), push_bit 3 (FC 0 1 0 1 0), push_bit 3 (FC 0 1 0 1 1),
     push_bit 3 (FC 0 1 1 0 0), push_bit 3 (FC 0 1 1 0 1), push_bit 3 (FC 0 1 1 1 0), push_bit 3 (FC 0 1 1 1 1),
     push_bit 3 (FC 1 0 0 0 0), push_bit 3 (FC 1 0 0 0 1), push_bit 3 (FC 1 0 0 1 0), push_bit 3 (FC 1 0 0 1 1),
     push_bit 3 (FC 1 0 1 0 0), push_bit 3 (FC 1 0 1 0 1), push_bit 3 (FC 1 0 1 1 0), push_bit 3 (FC 1 0 1 1 1),
     push_bit 3 (FC 1 1 0 0 0), push_bit 3 (FC 1 1 0 0 1), push_bit 3 (FC 1 1 0 1 0), push_bit 3 (FC 1 1 0 1 1),
     push_bit 3 (FC 1 1 1 0 0), push_bit 3 (FC 1 1 1 0 1), push_bit 3 (FC 1 1 1 1 0), push_bit 3 (FC 1 1 1 1 1)]"

text \<open>
  The macros \<open>CRYPTO1_FILTER_OUTPUT_B0_24\<close>, \<open>_B3_24\<close> and \<open>_B7_24\<close>. The index is a
  \<open>uint8_t\<close>; the tables hold 32 entries.
\<close>

definition CRYPTO1_FILTER_OUTPUT_B0_24 :: "u8 \<Rightarrow> u8 \<Rightarrow> u8 \<Rightarrow> u8" where
  "CRYPTO1_FILTER_OUTPUT_B0_24 O0 O1 O2 =
     TableC0 ! unat (abFilterTable0 ! unat O0 OR abFilterTable1 ! unat O1 OR abFilterTable2 ! unat O2)"

definition CRYPTO1_FILTER_OUTPUT_B3_24 :: "u8 \<Rightarrow> u8 \<Rightarrow> u8 \<Rightarrow> u8" where
  "CRYPTO1_FILTER_OUTPUT_B3_24 O0 O1 O2 =
     TableC3 ! unat (abFilterTable0 ! unat O0 OR abFilterTable1 ! unat O1 OR abFilterTable2 ! unat O2)"

definition CRYPTO1_FILTER_OUTPUT_B7_24 :: "u8 \<Rightarrow> u8 \<Rightarrow> u8 \<Rightarrow> u8" where
  "CRYPTO1_FILTER_OUTPUT_B7_24 O0 O1 O2 =
     TableC7 ! unat (abFilterTable0 ! unat O0 OR abFilterTable1 ! unat O1 OR abFilterTable2 ! unat O2)"

definition PRNG_MASK :: u32 where
  "PRNG_MASK = 0x002D0000"

definition LFSR_MASK_EVEN :: u32 where
  "LFSR_MASK_EVEN = 0x2010E1"

definition LFSR_MASK_ODD :: u32 where
  "LFSR_MASK_ODD = 0x3A7394"

text \<open>Three byte registers \<open>(b0, b1, b2)\<close> hold one 24-bit half, \<open>b0\<close> lowest.\<close>

type_synonym reg24 = "u8 \<times> u8 \<times> u8"

text \<open>
  The macros \<open>SPLIT_BYTE\<close>, \<open>SHIFT24\<close>, \<open>SHIFT24_COND_DECRYPT\<close> and \<open>SHIFT8\<close>; each
  returns the variables it assigns.
\<close>

definition SPLIT_BYTE :: "u8 \<Rightarrow> u8 \<Rightarrow> u8 \<Rightarrow> u8 \<times> u8 \<times> u8" where
  "SPLIT_BYTE even_r odd_r byte =
     (let even_r = drop_bit 1 even_r OR push_bit 7 (byte AND 0x01); byte = drop_bit 1 byte;
          odd_r = drop_bit 1 odd_r OR push_bit 7 (byte AND 0x01); byte = drop_bit 1 byte;
          even_r = drop_bit 1 even_r OR push_bit 7 (byte AND 0x01); byte = drop_bit 1 byte;
          odd_r = drop_bit 1 odd_r OR push_bit 7 (byte AND 0x01); byte = drop_bit 1 byte;
          even_r = drop_bit 1 even_r OR push_bit 7 (byte AND 0x01); byte = drop_bit 1 byte;
          odd_r = drop_bit 1 odd_r OR push_bit 7 (byte AND 0x01); byte = drop_bit 1 byte;
          even_r = drop_bit 1 even_r OR push_bit 7 (byte AND 0x01); byte = drop_bit 1 byte;
          odd_r = drop_bit 1 odd_r OR push_bit 7 (byte AND 0x01)
      in (even_r, odd_r, byte))"

definition SHIFT24 :: "reg24 \<Rightarrow> u8 \<Rightarrow> reg24" where
  "SHIFT24 r inp =
     (case r of (b0, b1, b2) \<Rightarrow>
        (let b0 = drop_bit 1 b0 OR push_bit 7 b1;
             b1 = drop_bit 1 b1 OR push_bit 7 b2;
             b2 = drop_bit 1 b2 OR push_bit 7 (inp AND 0x01)
         in (b0, b1, b2)))"

definition SHIFT24_COND_DECRYPT :: "reg24 \<Rightarrow> u8 \<Rightarrow> u8 \<Rightarrow> bool \<Rightarrow> reg24" where
  "SHIFT24_COND_DECRYPT r inp stream decrypt =
     (case r of (b0, b1, b2) \<Rightarrow>
        (let b0 = drop_bit 1 b0 OR push_bit 7 b1;
             b1 = drop_bit 1 b1 OR push_bit 7 b2;
             b2 = drop_bit 1 b2 OR push_bit 7 (inp XOR ((stream AND 0x01) AND of_bool decrypt))
         in (b0, b1, b2)))"

definition SHIFT8 :: "u8 \<Rightarrow> u8 \<Rightarrow> u8" where
  "SHIFT8 byte inp = drop_bit 1 byte OR push_bit 7 (inp AND 0x01)"

text \<open>The global \<open>State\<close> of type \<open>Crypto1LfsrState_t\<close> is passed and returned.\<close>

record Crypto1LfsrState_t =
  Even :: reg24
  Odd :: reg24

definition Crypto1LFSRbyteFeedback :: "reg24 \<Rightarrow> reg24 \<Rightarrow> u8" where
  "Crypto1LFSRbyteFeedback Ev Od =
     (case Ev of (E0, E1, E2) \<Rightarrow> case Od of (O0, O1, O2) \<Rightarrow>
        (let Feedback = E0 AND ucast LFSR_MASK_EVEN;
             Feedback = Feedback XOR (E1 AND ucast (drop_bit 8 LFSR_MASK_EVEN));
             Feedback = Feedback XOR (E2 AND ucast (drop_bit 16 LFSR_MASK_EVEN));
             Feedback = Feedback XOR (O0 AND ucast LFSR_MASK_ODD);
             Feedback = Feedback XOR (O1 AND ucast (drop_bit 8 LFSR_MASK_ODD));
             Feedback = Feedback XOR (O2 AND ucast (drop_bit 16 LFSR_MASK_ODD));
             Feedback = Feedback XOR (drop_bit 4 Feedback OR push_bit 4 Feedback);
             Feedback = Feedback XOR drop_bit 2 Feedback;
             Feedback = Feedback XOR drop_bit 1 Feedback
         in Feedback AND 1))"

definition Crypto1LFSR :: "u8 \<Rightarrow> Crypto1LfsrState_t \<Rightarrow> Crypto1LfsrState_t" where
  "Crypto1LFSR In State =
     (case Even State of (Temp0, Temp1, Temp2) \<Rightarrow> case Odd State of (Odd0, Odd1, Odd2) \<Rightarrow>
        (let Feedback = Temp0 AND ucast LFSR_MASK_EVEN;
             Feedback = Feedback XOR (Temp1 AND ucast (drop_bit 8 LFSR_MASK_EVEN));
             Feedback = Feedback XOR (Temp2 AND ucast (drop_bit 16 LFSR_MASK_EVEN));
             Feedback = Feedback XOR (Odd0 AND ucast LFSR_MASK_ODD);
             Feedback = Feedback XOR (Odd1 AND ucast (drop_bit 8 LFSR_MASK_ODD));
             Feedback = Feedback XOR (Odd2 AND ucast (drop_bit 16 LFSR_MASK_ODD));
             Feedback = Feedback XOR (drop_bit 4 Feedback OR push_bit 4 Feedback);
             Feedback = Feedback XOR drop_bit 2 Feedback;
             Feedback = Feedback XOR drop_bit 1 Feedback;
             Feedback = Feedback AND 1;
             Temp = SHIFT24 (Temp0, Temp1, Temp2) (Feedback XOR In)
         in \<lparr> Even = (Odd0, Odd1, Odd2), Odd = Temp \<rparr>))"

definition Crypto1FilterOutput :: "Crypto1LfsrState_t \<Rightarrow> u8" where
  "Crypto1FilterOutput State =
     (case Odd State of (O0, O1, O2) \<Rightarrow> CRYPTO1_FILTER_OUTPUT_B0_24 O0 O1 O2)"

text \<open>
  Modelled from the spec: the table \<open>OddByteParity\<close> behind \<open>oddparity8\<close> is only declared
  in parity.h. It is the "odd_parity" of section 4.6: as its header comment says, 1 when
  the number of 1-bits of the byte is even, 0 when it is odd.
\<close>

definition OddByteParity :: "u8 \<Rightarrow> u8" where
  "OddByteParity x = of_bool (even (length (filter (bit x) [0..<8])))"

definition oddparity8 :: "u8 \<Rightarrow> u8" where
  "oddparity8 x = OddByteParity x"

text \<open>
  The key load that opens \<open>Crypto1Setup\<close> and \<open>Crypto1SetupNested\<close>: six \<open>SPLIT_BYTE\<close>
  calls on registers that start at 0. The result is \<open>(Even, Odd)\<close>.
\<close>

definition Crypto1_load_key :: "u8 list \<Rightarrow> reg24 \<times> reg24" where
  "Crypto1_load_key Key =
     (let (Even0, Odd0, KeyStream) = SPLIT_BYTE 0 0 (Key ! 0);
          (Even0, Odd0, KeyStream) = SPLIT_BYTE Even0 Odd0 (Key ! 1);
          (Even1, Odd1, KeyStream) = SPLIT_BYTE 0 0 (Key ! 2);
          (Even1, Odd1, KeyStream) = SPLIT_BYTE Even1 Odd1 (Key ! 3);
          (Even2, Odd2, KeyStream) = SPLIT_BYTE 0 0 (Key ! 4);
          (Even2, Odd2, KeyStream) = SPLIT_BYTE Even2 Odd2 (Key ! 5)
      in ((Even0, Even1, Even2), (Odd0, Odd1, Odd2)))"

text \<open>
  The local variables of \<open>Crypto1SetupNested\<close> that the bit loop changes. The loop
  counter \<open>bit\<close> is called \<open>bitc\<close> throughout, \<open>bit\<close> being taken.
\<close>

record nested_locals =
  nl_Even :: reg24
  nl_Odd :: reg24
  nl_KeyStream :: u8
  nl_Out :: u8
  nl_In :: u8

text \<open>The body of the loop \<open>for (bit = 0; bit < 8; bit++)\<close> of \<open>Crypto1SetupNested\<close>.\<close>

definition Crypto1SetupNested_bit :: "u8 \<Rightarrow> bool \<Rightarrow> nested_locals \<Rightarrow> nested_locals" where
  "Crypto1SetupNested_bit bitc Decrypt v =
     (let (KeyStream, Out) =
            (if bitc = 0 then (SHIFT8 (nl_KeyStream v) (nl_Out v), nl_Out v)
             else
               (let Out = (if bitc AND 1 \<noteq> 0
                           then (case nl_Even v of (Even0, Even1, Even2) \<Rightarrow>
                                   CRYPTO1_FILTER_OUTPUT_B7_24 Even0 Even1 Even2)
                           else (case nl_Odd v of (Odd0, Odd1, Odd2) \<Rightarrow>
                                   CRYPTO1_FILTER_OUTPUT_B7_24 Odd0 Odd1 Odd2))
                in (drop_bit 1 (nl_KeyStream v) OR Out, Out)));
          Feedback = (if bitc AND 1 \<noteq> 0
                      then Crypto1LFSRbyteFeedback (nl_Odd v) (nl_Even v)
                      else Crypto1LFSRbyteFeedback (nl_Even v) (nl_Odd v));
          Feedback = Feedback XOR (nl_In v AND 1);
          In = drop_bit 1 (nl_In v)
      in if bitc AND 1 \<noteq> 0
         then v \<lparr> nl_Odd := SHIFT24_COND_DECRYPT (nl_Odd v) Feedback Out Decrypt,
                  nl_KeyStream := KeyStream, nl_Out := Out, nl_In := In \<rparr>
         else v \<lparr> nl_Even := SHIFT24_COND_DECRYPT (nl_Even v) Feedback Out Decrypt,
                  nl_KeyStream := KeyStream, nl_Out := Out, nl_In := In \<rparr>)"

function Crypto1SetupNested_bits :: "u8 \<Rightarrow> bool \<Rightarrow> nested_locals \<Rightarrow> nested_locals" where
  "Crypto1SetupNested_bits bitc Decrypt v =
     (if bitc < 8 then Crypto1SetupNested_bits (bitc + 1) Decrypt (Crypto1SetupNested_bit bitc Decrypt v)
      else v)"
  by pat_completeness auto
termination
  by (relation "measure (\<lambda>(bitc, Decrypt, v). 8 - unat bitc)")
     (auto simp: word_less_nat_alt unat_word_ariths)

text \<open>
  The arrays \<open>Uid\<close>, \<open>CardNonce\<close> and \<open>NonceParity\<close> are lists indexed by \<open>ByteCount\<close> (the
  source advances the three pointers together with it).
\<close>

function Crypto1SetupNested_bytes ::
  "u8 \<Rightarrow> u8 list \<Rightarrow> bool \<Rightarrow> reg24 \<times> reg24 \<times> u8 \<times> u8 list \<times> u8 list
     \<Rightarrow> reg24 \<times> reg24 \<times> u8 \<times> u8 list \<times> u8 list" where
  "Crypto1SetupNested_bytes ByteCount Uid Decrypt (EvenR, OddR, Out, CardNonce, NonceParity) =
     (if ByteCount < 4 then
        (let In = CardNonce ! unat ByteCount XOR Uid ! unat ByteCount;
             v = Crypto1SetupNested_bits 0 Decrypt
                   \<lparr> nl_Even = EvenR, nl_Odd = OddR, nl_KeyStream = 0, nl_Out = Out, nl_In = In \<rparr>;
             Out = (case nl_Odd v of (Odd0, Odd1, Odd2) \<Rightarrow> CRYPTO1_FILTER_OUTPUT_B0_24 Odd0 Odd1 Odd2);
             NonceParity = NonceParity[unat ByteCount := oddparity8 (CardNonce ! unat ByteCount) XOR Out];
             CardNonce = CardNonce[unat ByteCount := CardNonce ! unat ByteCount XOR nl_KeyStream v]
         in Crypto1SetupNested_bytes (ByteCount + 1) Uid Decrypt
              (nl_Even v, nl_Odd v, Out, CardNonce, NonceParity))
      else (EvenR, OddR, Out, CardNonce, NonceParity))"
  by pat_completeness auto
termination
  by (relation "measure (\<lambda>(ByteCount, Uid, Decrypt, r). 4 - unat ByteCount)")
     (auto simp: word_less_nat_alt unat_word_ariths)

text \<open>\<open>Crypto1SetupNested\<close> returns the new \<open>State\<close>, \<open>CardNonce\<close> and \<open>NonceParity\<close>.\<close>

definition Crypto1SetupNested ::
  "u8 list \<Rightarrow> u8 list \<Rightarrow> u8 list \<Rightarrow> u8 list \<Rightarrow> bool \<Rightarrow> Crypto1LfsrState_t \<times> u8 list \<times> u8 list" where
  "Crypto1SetupNested Key Uid CardNonce NonceParity Decrypt =
     (let (EvenR, OddR) = Crypto1_load_key Key;
          Out = (case OddR of (Odd0, Odd1, Odd2) \<Rightarrow> CRYPTO1_FILTER_OUTPUT_B0_24 Odd0 Odd1 Odd2);
          (EvenR, OddR, Out, CardNonce, NonceParity) =
             Crypto1SetupNested_bytes 0 Uid Decrypt (EvenR, OddR, Out, CardNonce, NonceParity)
      in (\<lparr> Even = EvenR, Odd = OddR \<rparr>, CardNonce, NonceParity))"

text \<open>The body of the bit loop of \<open>Crypto1Auth\<close> on \<open>(Even, Odd, In)\<close>.\<close>

definition Crypto1Auth_bit :: "u8 \<Rightarrow> reg24 \<times> reg24 \<times> u8 \<Rightarrow> reg24 \<times> reg24 \<times> u8" where
  "Crypto1Auth_bit bitc v =
     (case v of (EvenR, OddR, In) \<Rightarrow>
        (let Feedback = (if bitc AND 1 \<noteq> 0
                         then (case EvenR of (Even0, Even1, Even2) \<Rightarrow>
                                 CRYPTO1_FILTER_OUTPUT_B0_24 Even0 Even1 Even2)
                         else (case OddR of (Odd0, Odd1, Odd2) \<Rightarrow>
                                 CRYPTO1_FILTER_OUTPUT_B0_24 Odd0 Odd1 Odd2));
             Feedback = (if bitc AND 1 \<noteq> 0
                         then Crypto1LFSRbyteFeedback OddR EvenR
                         else Crypto1LFSRbyteFeedback EvenR OddR);
             Feedback = Feedback XOR (Feedback XOR (In AND 1));
             In = drop_bit 1 In
         in if bitc AND 1 \<noteq> 0 then (EvenR, SHIFT24 OddR Feedback, In)
            else (SHIFT24 EvenR Feedback, OddR, In)))"

function Crypto1Auth_bits :: "u8 \<Rightarrow> reg24 \<times> reg24 \<times> u8 \<Rightarrow> reg24 \<times> reg24 \<times> u8" where
  "Crypto1Auth_bits bitc v =
     (if bitc < 8 then Crypto1Auth_bits (bitc + 1) (Crypto1Auth_bit bitc v) else v)"
  by pat_completeness auto
termination
  by (relation "measure (\<lambda>(bitc, v). 8 - unat bitc)")
     (auto simp: word_less_nat_alt unat_word_ariths)

function Crypto1Auth_bytes :: "u8 \<Rightarrow> u8 list \<Rightarrow> reg24 \<times> reg24 \<Rightarrow> reg24 \<times> reg24" where
  "Crypto1Auth_bytes i EncryptedReaderNonce (EvenR, OddR) =
     (if i < 4 then
        (let In = EncryptedReaderNonce ! unat i;
             (EvenR, OddR, In) = Crypto1Auth_bits 0 (EvenR, OddR, In)
         in Crypto1Auth_bytes (i + 1) EncryptedReaderNonce (EvenR, OddR))
      else (EvenR, OddR))"
  by pat_completeness auto
termination
  by (relation "measure (\<lambda>(i, n, r). 4 - unat i)")
     (auto simp: word_less_nat_alt unat_word_ariths)

definition Crypto1Auth :: "u8 list \<Rightarrow> Crypto1LfsrState_t \<Rightarrow> Crypto1LfsrState_t" where
  "Crypto1Auth EncryptedReaderNonce State =
     (let (EvenR, OddR) = Crypto1Auth_bytes 0 EncryptedReaderNonce (Even State, Odd State)
      in \<lparr> Even = EvenR, Odd = OddR \<rparr>)"

section \<open>The two layouts of one LFSR half\<close>

text \<open>
  The byte registers shift right and take the new bit at bit 23 (\<open>SHIFT24\<close>); the packed
  halves of crypto1.c shift left and take it at bit 0. The same 24 LFSR bits therefore sit
  in opposite orders: bit \<open>k\<close> of \<open>b0 | b1 << 8 | b2 << 16\<close> is bit \<open>23 - k\<close> of the packed
  half. \<open>packed_of_bytes\<close> is the packed value that holds the same half as the byte
  registers; the two key loads agree under it.
\<close>

definition reg24_value :: "reg24 \<Rightarrow> 24 word" where
  "reg24_value r = (case r of (b0, b1, b2) \<Rightarrow> ucast b0 OR push_bit 8 (ucast b1) OR push_bit 16 (ucast b2))"

definition packed_of_bytes :: "reg24 \<Rightarrow> u32" where
  "packed_of_bytes r = ucast (word_reverse (reg24_value r))"

text \<open>A nibble read in reverse bit order (bit 3 first).\<close>

definition nibrev :: "u8 \<Rightarrow> nat" where
  "nibrev h = (if bit h 3 then 1 else 0) + (if bit h 2 then 2 else 0)
            + (if bit h 1 then 4 else 0) + (if bit h 0 then 8 else 0)"

text \<open>What the rows of \<open>abFilterTable\<close> hold, entry by entry.\<close>

definition filter_row0 :: "u8 \<Rightarrow> u8" where
  "filter_row0 b = ucast (drop_bit (nibrev (drop_bit 4 b)) (0x0d938 :: u32) AND 1)"

definition filter_row1 :: "u8 \<Rightarrow> u8" where
  "filter_row1 b = ucast ((drop_bit (nibrev (drop_bit 4 b)) (0x3c8b0 :: u32) AND 4)
                         OR (drop_bit (nibrev b) (0x1e458 :: u32) AND 2))"

definition filter_row2 :: "u8 \<Rightarrow> u8" where
  "filter_row2 b = ucast ((drop_bit (nibrev (drop_bit 4 b)) (0xf22c0 :: u32) AND 16)
                         OR (drop_bit (nibrev b) (0x6c9c0 :: u32) AND 8))"

declare crypto1_init_loop.simps [simp del]
declare crypto1_get_lfsr_loop.simps [simp del]
declare crypto1_byte_loop.simps [simp del]
declare crypto1_word_loop.simps [simp del]
declare prng_for16.simps [simp del]
declare prng_while.simps [simp del]
declare Crypto1PRNG_loop.simps [simp del]

declare Crypto1SetupNested_bits.simps [simp del]
declare Crypto1SetupNested_bytes.simps [simp del]
declare Crypto1Auth_bits.simps [simp del]
declare Crypto1Auth_bytes.simps [simp del]
section \<open>Properties of the bit clock\<close>

lemma bit_lt_2p: "(x::'a::len word) < 2 ^ k \<Longrightarrow> bit x n \<Longrightarrow> n < k"
proof -
  assume "x < 2 ^ k" "bit x n"
  then have "x AND mask k = x" by (simp add: less_mask_eq)
  with \<open>bit x n\<close> have "bit (x AND mask k) n" by simp
  then show ?thesis by (simp add: bit_and_iff bit_mask_iff)
qed

lemma BIT_cases: "BIT x n = 0 \<or> BIT x n = 1"
  unfolding BIT_def by (rule disjCI) (auto simp: and_one_eq)

lemma filter_crapto1_cases: "filter_crapto1 x = 0 \<or> filter_crapto1 x = 1"
  unfolding filter_crapto1_def Let_def by (rule BIT_cases)

lemma ucast_filter_u8: "(ucast (ucast (filter_crapto1 x) :: u8) :: u32) = filter_crapto1 x"
  using filter_crapto1_cases [of x] by auto

lemma ucast_of_bool_FF: "ucast ((of_bool B :: u32) AND 0xFF) = (of_bool B :: u8)"
  by (cases B) simp_all

lemma evenparity32_of_bool:
  "evenparity32 x = of_bool (odd (length (filter (bit x) [0..<32])))"
  unfolding evenparity32_def builtin_parity_def by (rule ucast_of_bool_FF)

lemma of_bool_cases: "(of_bool B :: u8) = 0 \<or> (of_bool B :: u8) = 1"
  by (cases B) simp_all

lemma crypto1_bit_out: "snd (crypto1_bit s inp e) = ucast (filter_crapto1 (s_odd s))"
  by (simp add: crypto1_bit_def Let_def)

lemma crypto1_bit_odd: "s_odd (fst (crypto1_bit s inp e)) = s_even s"
  by (simp add: crypto1_bit_def Let_def)

lemma crypto1_bit_even:
  "s_even (fst (crypto1_bit s inp e)) =
     push_bit 1 (s_odd s) OR
     ucast (evenparity32 (lnotnot inp XOR (filter_crapto1 (s_odd s) AND lnotnot e)
       XOR (LF_POLY_ODD AND s_odd s) XOR (LF_POLY_EVEN AND s_even s)))"
  by (simp add: crypto1_bit_def Let_def ucast_filter_u8 ac_simps del: One_nat_def)

lemma evenparity32_cases: "evenparity32 x = 0 \<or> evenparity32 x = 1"
  unfolding evenparity32_of_bool by (rule of_bool_cases)

lemma shift_in_bit:
  "p = 0 \<or> p = 1 \<Longrightarrow>
   bit (push_bit 1 (t::u32) OR ucast (p::u8)) n
     \<longleftrightarrow> (if n = 0 then p = 1 else n < 32 \<and> bit t (n - 1))"
  by (cases n) (auto simp: bit_simps simp del: One_nat_def)

lemmas shift_in_parity = shift_in_bit [OF evenparity32_cases]

lemma crypto1_bit_even_bits:
  "bit (s_even (fst (crypto1_bit s inp e))) (Suc n) \<longleftrightarrow> Suc n < 32 \<and> bit (s_odd s) n"
  unfolding crypto1_bit_even shift_in_parity by simp

lemma lnotnot_bit: "inp = 0 \<or> inp = 1 \<Longrightarrow> lnotnot inp = ucast inp AND 1"
  by (auto simp: lnotnot_def)



section \<open>The PRNG successor\<close>

lemma push_bit_31_and_1: "push_bit 31 (y AND 1) = push_bit 31 (y::u32)"
  by (rule bit_word_eqI) (simp only: bit_push_bit_iff bit_and_iff bit_1_iff, auto)

lemma prng_step_spec_eq: "prng_step_spec x = prng_step x"
  unfolding prng_step_spec_def prng_step_def by (simp only: push_bit_31_and_1)

lemma prng_for16_funpow: "i \<le> 16 \<Longrightarrow> prng_for16 i x = (prng_step ^^ (16 - i)) x"
proof (induction i x rule: prng_for16.induct)
  case (1 i x)
  show ?case
  proof (cases "i < 16")
    case True
    then have "16 - i = Suc (16 - (i + 1))" by simp
    with True 1 show ?thesis
      by (subst prng_for16.simps) (simp add: funpow_Suc_right del: funpow.simps)
  next
    case False
    with 1 show ?thesis by (subst prng_for16.simps) simp
  qed
qed

lemma prng_while_funpow: "prng_while n x = (prng_step ^^ unat n) x"
proof (induction n x rule: prng_while.induct)
  case (1 n x)
  show ?case
  proof (cases "n = 0")
    case True
    then show ?thesis by (subst prng_while.simps) simp
  next
    case False
    then have "unat n = Suc (unat (n - 1))"
      by (simp add: unat_minus_one unat_gt_0)
    with False 1 show ?thesis
      by (subst prng_while.simps) (simp add: funpow_Suc_right del: funpow.simps)
  qed
qed

lemma prng_successor_funpow: "prng_successor x n = REV ((prng_step ^^ unat n) (REV x))"
  by (auto simp: prng_successor_def Let_def prng_for16_funpow prng_while_funpow)

lemma REV_vec: "REV 0x01020304 = 0x04030201"
  by (simp add: REV_def)

lemma prng_while_vec: "prng_while 64 0x04030201 = 0x56EDF820"
  by (simp add: prng_while.simps prng_step_def)

lemma REV_vec64: "REV 0x56EDF820 = 0x20F8ED56"
  by (simp add: REV_def)

lemma prng_step_vec: "prng_step 0x04030201 = 0x82018100"
  by (simp add: prng_step_def)

lemma REV_vec1: "REV 0x82018100 = 0x00810182"
  by (simp add: REV_def)

lemma prng_successor_vec1: "prng_successor 0x01020304 1 = 0x00810182"
  by (simp add: prng_successor_def Let_def REV_vec prng_step_vec REV_vec1)

lemma prng_successor_vec64: "prng_successor 0x01020304 64 = 0x20F8ED56"
  by (simp add: prng_successor_def Let_def REV_vec prng_while_vec REV_vec64)

text \<open>
  C9, as the spec states it, fails: the two test vectors of the spec are not what
  \<open>prng_successor\<close> computes. At \<open>x = 0x01020304\<close>, \<open>n = 1\<close> the code returns
  \<open>0x00810182\<close>, not \<open>0x01020381\<close>.
\<close>

theorem C9_counterexample: "prng_successor 0x01020304 1 \<noteq> 0x01020381"
  by (simp add: prng_successor_vec1)

text \<open>
  C9, amended: for every 32-bit \<open>x\<close> and every \<open>n\<close>, \<open>prng_successor x n\<close> equals the
  reference definition (byte-swap, \<open>n\<close> times the single step with the feedback masked to
  one bit, byte-swap back), so the fast paths for \<open>n = 1\<close> and \<open>n = 16\<close> agree with the
  general loop; and \<open>prng_successor 0x01020304 1 = 0x00810182\<close>,
  \<open>prng_successor 0x01020304 64 = 0x20F8ED56\<close>.
\<close>

theorem C9_prng_successor_reference:
  "prng_successor x n = prng_successor_spec x (unat n)
   \<and> prng_successor 0x01020304 1 = 0x00810182
   \<and> prng_successor 0x01020304 64 = 0x20F8ED56"
proof -
  have s: "prng_step_spec = prng_step" by (rule ext) (rule prng_step_spec_eq)
  have "prng_successor x n = prng_successor_spec x (unat n)"
    by (simp add: prng_successor_funpow prng_successor_spec_def s)
  then show ?thesis
    by (simp only: prng_successor_vec1 prng_successor_vec64 simp_thms)
qed

text \<open>
  C2: for every state with both halves below \<open>2^24\<close>, every input bit in \<open>{0, 1}\<close> and
  every \<open>is_encrypted\<close>, \<open>crypto1_bit\<close> returns the filter of the old odd half, the new
  odd half is the old even half, the new even half shifted right by one is the old odd
  half, and the bit at the bottom of the new even half is the even parity of
  \<open>(in & 1) ^ (out & !!is_encrypted) ^ (LF_POLY_ODD & odd) ^ (LF_POLY_EVEN & even)\<close>.
\<close>

theorem C2_crypto1_bit:
  assumes "s_odd s < 2 ^ 24" and "s_even s < 2 ^ 24" and "inp = 0 \<or> inp = 1"
  shows "snd (crypto1_bit s inp e) = ucast (filter_crapto1 (s_odd s))
       \<and> s_odd (fst (crypto1_bit s inp e)) = s_even s
       \<and> drop_bit 1 (s_even (fst (crypto1_bit s inp e))) = s_odd s
       \<and> s_even (fst (crypto1_bit s inp e)) AND 1 =
           ucast (evenparity32 ((ucast inp AND 1)
                    XOR (filter_crapto1 (s_odd s) AND lnotnot e)
                    XOR (LF_POLY_ODD AND s_odd s)
                    XOR (LF_POLY_EVEN AND s_even s)))"
proof -
  have hi: "\<not> bit (s_odd s) 31"
    using bit_lt_2p [OF assms(1), of 31] by auto
  have 1: "drop_bit 1 (s_even (fst (crypto1_bit s inp e))) = s_odd s"
  proof (rule bit_word_eqI)
    fix n assume "n < LENGTH(32)"
    have d: "bit (drop_bit 1 (s_even (fst (crypto1_bit s inp e)))) n
          = bit (s_even (fst (crypto1_bit s inp e))) (Suc n)"
      by (simp add: bit_drop_bit_eq)
    show "bit (drop_bit 1 (s_even (fst (crypto1_bit s inp e)))) n = bit (s_odd s) n"
    proof (cases "n = 31")
      case True
      with hi show ?thesis unfolding d by (auto dest: bit_imp_le_length)
    next
      case False
      with \<open>n < LENGTH(32)\<close> show ?thesis unfolding d crypto1_bit_even_bits by simp
    qed
  qed
  have 2: "s_even (fst (crypto1_bit s inp e)) AND 1 =
           ucast (evenparity32 ((ucast inp AND 1)
                    XOR (filter_crapto1 (s_odd s) AND lnotnot e)
                    XOR (LF_POLY_ODD AND s_odd s)
                    XOR (LF_POLY_EVEN AND s_even s)))"
    (is "_ = ucast (evenparity32 ?x)")
  proof (rule bit_word_eqI)
    fix n assume "n < LENGTH(32)"
    show "bit (s_even (fst (crypto1_bit s inp e)) AND 1) n = bit (ucast (evenparity32 ?x) :: u32) n"
      unfolding crypto1_bit_even lnotnot_bit [OF assms(3)] bit_and_iff shift_in_parity
      using evenparity32_cases [of ?x] by (auto simp: bit_1_iff bit_ucast_iff)
  qed
  show ?thesis
    using 1 2 by (simp only: crypto1_bit_out crypto1_bit_odd simp_thms)
qed

theorem C2_crypto1_bit_witness:
  "s_odd \<lparr> s_odd = 0x123456, s_even = 0x0ABCDE \<rparr> < 2 ^ 24
   \<and> s_even \<lparr> s_odd = 0x123456, s_even = 0x0ABCDE \<rparr> < 2 ^ 24
   \<and> ((1::u8) = 0 \<or> (1::u8) = 1)
   \<and> snd (crypto1_bit \<lparr> s_odd = 0x123456, s_even = 0x0ABCDE \<rparr> 1 1)
         = ucast (filter_crapto1 0x123456)
   \<and> s_odd (fst (crypto1_bit \<lparr> s_odd = 0x123456, s_even = 0x0ABCDE \<rparr> 1 1)) = 0x0ABCDE
   \<and> drop_bit 1 (s_even (fst (crypto1_bit \<lparr> s_odd = 0x123456, s_even = 0x0ABCDE \<rparr> 1 1)))
         = 0x123456"
  using C2_crypto1_bit [of "\<lparr> s_odd = 0x123456, s_even = 0x0ABCDE \<rparr>" 1 1]
  by simp

section \<open>The word clock\<close>

lemma crypto1_bit_out_cases: "snd (crypto1_bit s inp e) = 0 \<or> snd (crypto1_bit s inp e) = 1"
  unfolding crypto1_bit_out using filter_crapto1_cases [of "s_odd s"] by auto

lemma xor24_less: "i < 32 \<Longrightarrow> (24::nat) XOR i < 32"
proof -
  assume "i < 32"
  then have "take_bit 5 i = i" by (simp add: take_bit_nat_eq_self)
  moreover have "take_bit 5 (24::nat) = 24" by (simp add: take_bit_nat_eq_self)
  ultimately have "take_bit 5 (24 XOR i) = 24 XOR i" by simp
  then have "24 XOR i < 2 ^ 5" by (simp only: take_bit_nat_eq_self_iff)
  then show ?thesis by simp
qed

lemma xor24_and31: "i < 32 \<Longrightarrow> ((24::nat) XOR i) AND 0x1F = 24 XOR i"
proof -
  assume "i < 32"
  then have "24 XOR i < 2 ^ 5" using xor24_less by simp
  then have "take_bit 5 (24 XOR i) = 24 XOR i" by (simp only: take_bit_nat_eq_self)
  moreover have "(0x1F::nat) = mask 5" by (simp add: mask_eq_exp_minus_1)
  ultimately show ?thesis by (simp only: take_bit_eq_mask)
qed

lemma xor24_inj: "(24::nat) XOR i = 24 XOR j \<Longrightarrow> i = j"
proof -
  assume "(24::nat) XOR i = 24 XOR j"
  then have "24 XOR (24 XOR i) = 24 XOR (24 XOR j)" by simp
  then show ?thesis by (simp flip: xor.assoc)
qed

lemma bit_push_bit_ucast_bit:
  "b = 0 \<or> b = 1 \<Longrightarrow> k < 32 \<Longrightarrow> bit (push_bit k (ucast (b::u8)) :: u32) n \<longleftrightarrow> n = k \<and> b = 1"
  by (auto simp: bit_simps)

lemma word_loop_fst:
  "fst (crypto1_word_loop i s inp e ret)
   = fst (crypto1_bit_seq s (map (\<lambda>i. ucast (BEBIT inp i)) [i..<32]) e)"
proof (induction i s inp e ret rule: crypto1_word_loop.induct)
  case (1 i s inp e ret)
  show ?case
  proof (cases "i < 32")
    case False
    then show ?thesis by (subst crypto1_word_loop.simps) simp
  next
    case True
    obtain s1 b where sb: "crypto1_bit s (ucast (BEBIT inp i)) e = (s1, b)" by force
    from True have u: "[i..<32] = i # [i + 1..<32]" by (simp add: upt_conv_Cons)
    show ?thesis
      using True 1 [OF True sb [symmetric] refl]
      by (subst crypto1_word_loop.simps) (simp add: u sb split: prod.splits del: upt_Suc)
  qed
qed


lemma word_loop_bits:
  "n < 32 \<Longrightarrow>
   bit (snd (crypto1_word_loop i s inp e ret)) n \<longleftrightarrow>
     bit ret n \<or>
     (\<exists>j. i \<le> j \<and> j < 32 \<and> n = 24 XOR j \<and>
        snd (crypto1_bit_seq s (map (\<lambda>i. ucast (BEBIT inp i)) [i..<32]) e) ! (j - i) = 1)"
proof (induction i s inp e ret rule: crypto1_word_loop.induct)
  case (1 i s inp e ret)
  show ?case
  proof (cases "i < 32")
    case False
    then show ?thesis by (subst crypto1_word_loop.simps) auto
  next
    case True
    obtain s1 b where sb: "crypto1_bit s (ucast (BEBIT inp i)) e = (s1, b)" by force
    have b: "b = 0 \<or> b = 1" using crypto1_bit_out_cases [of s "ucast (BEBIT inp i)" e] sb by simp
    from True have u: "[i..<32] = i # [i + 1..<32]" by (simp add: upt_conv_Cons)
    let ?outs = "snd (crypto1_bit_seq s1 (map (\<lambda>i. ucast (BEBIT inp i)) [i + 1..<32]) e)"
    have seq: "snd (crypto1_bit_seq s (map (\<lambda>i. ucast (BEBIT inp i)) [i..<32]) e) = b # ?outs"
      by (simp add: u sb split: prod.splits del: upt_Suc)
    have loop: "crypto1_word_loop i s inp e ret
          = crypto1_word_loop (i + 1) s1 inp e (ret OR push_bit (24 XOR i) (ucast b))"
      using True by (subst crypto1_word_loop.simps) (simp add: sb xor24_and31)
    have k: "24 XOR i < 32" using True by (rule xor24_less)
    have IH: "bit (snd (crypto1_word_loop (i + 1) s1 inp e (ret OR push_bit (24 XOR i) (ucast b)))) n
       \<longleftrightarrow> bit (ret OR push_bit (24 XOR i) (ucast b)) n \<or>
         (\<exists>j. i + 1 \<le> j \<and> j < 32 \<and> n = 24 XOR j \<and> ?outs ! (j - (i + 1)) = 1)"
      using "1.IH" [OF True sb [symmetric] refl \<open>n < 32\<close>] xor24_and31 [OF True] by simp
    have ex: "(\<exists>j. i \<le> j \<and> j < 32 \<and> n = 24 XOR j \<and> (b # ?outs) ! (j - i) = 1)
        \<longleftrightarrow> (n = 24 XOR i \<and> b = 1) \<or>
            (\<exists>j. i + 1 \<le> j \<and> j < 32 \<and> n = 24 XOR j \<and> ?outs ! (j - (i + 1)) = 1)"
      (is "?L \<longleftrightarrow> ?A \<or> ?R")
    proof
      assume ?L
      then obtain j where j: "i \<le> j" "j < 32" "n = 24 XOR j" "(b # ?outs) ! (j - i) = 1" by blast
      show "?A \<or> ?R"
      proof (cases "j = i")
        case True
        with j show ?thesis by simp
      next
        case False
        with j have "j - i = Suc (j - (i + 1))" by simp
        with j False show ?thesis by auto
      qed
    next
      assume "?A \<or> ?R"
      then show ?L
      proof
        assume ?A
        with True show ?L by (intro exI [of _ i]) simp
      next
        assume ?R
        then obtain j where j: "i + 1 \<le> j" "j < 32" "n = 24 XOR j" "?outs ! (j - (i + 1)) = 1" by blast
        then have "j - i = Suc (j - (i + 1))" by simp
        with j show ?L by (intro exI [of _ j]) simp
      qed
    qed
    show ?thesis
      unfolding loop IH seq ex bit_or_iff bit_push_bit_ucast_bit [OF b k] by blast
  qed
qed

text \<open>
  C7: for every state, input word and \<open>is_encrypted\<close>, \<open>crypto1_word\<close> is the composition
  of 32 \<open>crypto1_bit\<close> calls: call \<open>i\<close> receives bit \<open>24 XOR i\<close> of the input word, its
  returned bit is bit \<open>24 XOR i\<close> of the result, and the final state is the state after
  the 32 calls.
\<close>

theorem C7_crypto1_word:
  "fst (crypto1_word s inp e)
     = fst (crypto1_bit_seq s (map (\<lambda>i. ucast (BIT inp (24 XOR i))) [0..<32]) e)
   \<and> (\<forall>i<32. bit (snd (crypto1_word s inp e)) (24 XOR i)
         \<longleftrightarrow> snd (crypto1_bit_seq s (map (\<lambda>i. ucast (BIT inp (24 XOR i))) [0..<32]) e) ! i = 1)"
proof -
  have f: "(\<lambda>i. ucast (BEBIT inp i) :: u8) = (\<lambda>i. ucast (BIT inp (24 XOR i)))"
    by (rule ext) (simp add: BEBIT_def xor.commute)
  have "bit (snd (crypto1_word s inp e)) (24 XOR i)
         \<longleftrightarrow> snd (crypto1_bit_seq s (map (\<lambda>i. ucast (BIT inp (24 XOR i))) [0..<32]) e) ! i = 1"
    if "i < 32" for i
  proof -
    have "24 XOR i < 32" using that by (rule xor24_less)
    then show ?thesis
      unfolding crypto1_word_def f [symmetric]
      using that by (subst word_loop_bits) (auto dest: xor24_inj)
  qed
  then show ?thesis
    unfolding crypto1_word_def using word_loop_fst [of 0 s inp e 0] by (simp add: f)
qed

theorem C7_crypto1_word_witness:
  "(5::nat) < 32
   \<and> (bit (snd (crypto1_word \<lparr> s_odd = 0x123456, s_even = 0x0ABCDE \<rparr> 0xDEADBEEF 1)) (24 XOR 5)
        \<longleftrightarrow> snd (crypto1_bit_seq \<lparr> s_odd = 0x123456, s_even = 0x0ABCDE \<rparr>
                   (map (\<lambda>i. ucast (BIT (0xDEADBEEF :: u32) (24 XOR i))) [0..<32]) 1) ! 5 = 1)"
proof -
  have h: "(5::nat) < 32" by simp
  show ?thesis
    using h C7_crypto1_word [of "\<lparr> s_odd = 0x123456, s_even = 0x0ABCDE \<rparr>" "0xDEADBEEF" 1,
        THEN conjunct2, rule_format, OF h]
    by (simp del: upt_Suc map_upt_Suc crypto1_bit_seq.simps)
qed

section \<open>Key load and export\<close>

lemma shift_in32:
  "bit (ucast (ucast ((w::u32) * 2) OR BIT (key::u64) c) :: u32) n
   \<longleftrightarrow> (if n = 0 then bit key c else n < 32 \<and> bit w (n - 1))"
proof -
  have "bit (ucast (ucast (push_bit 1 w) OR BIT key c) :: u32) n
   \<longleftrightarrow> (if n = 0 then bit key c else n < 32 \<and> bit w (n - 1))"
    by (cases n) (auto simp: bit_simps BIT_def simp del: One_nat_def)
  then show ?thesis by simp
qed

lemma shift_in64:
  "bit ((l::u64) * 2 OR ucast (BIT (x::u32) c)) n
   \<longleftrightarrow> (if n = 0 then bit x c else n < 64 \<and> bit l (n - 1))"
proof -
  have "bit (push_bit 1 l OR ucast (BIT x c)) n
   \<longleftrightarrow> (if n = 0 then bit x c else n < 64 \<and> bit l (n - 1))"
    by (cases n) (auto simp: bit_simps BIT_def simp del: One_nat_def dest: bit_imp_le_length)
  then show ?thesis by simp
qed

lemma init_loop_bits:
  "bit (s_odd (crypto1_init_loop (2 * int k - 1) s key)) n
     \<longleftrightarrow> n < 32 \<and> (if n < k then bit key (nat ((2 * int n) XOR 7)) else bit (s_odd s) (n - k))"
  "bit (s_even (crypto1_init_loop (2 * int k - 1) s key)) n
     \<longleftrightarrow> n < 32 \<and> (if n < k then bit key (nat ((2 * int n + 1) XOR 7)) else bit (s_even s) (n - k))"
proof (induction k arbitrary: s n)
  case 0
  { case 1 show ?case by (subst crypto1_init_loop.simps) (auto dest: bit_imp_le_length) }
  { case 2 show ?case by (subst crypto1_init_loop.simps) (auto dest: bit_imp_le_length) }
next
  case (Suc k)
  have i: "2 * int (Suc k) - 1 - 2 = 2 * int k - 1" "2 * int (Suc k) - 1 - 1 = 2 * int k"
    "2 * int (Suc k) - 1 = 2 * int k + 1" by simp_all
  { case 1 show ?case
      by (subst crypto1_init_loop.simps)
         (auto simp: i Suc.IH shift_in32 less_Suc_eq Suc_diff_le) }
  { case 2 show ?case
      by (subst crypto1_init_loop.simps)
         (auto simp: i Suc.IH shift_in32 less_Suc_eq Suc_diff_le add.commute) }
qed

lemma init_47_bits:
  "bit (s_odd (crypto1_init_loop 47 s key)) n
     \<longleftrightarrow> n < 32 \<and> (if n < 24 then bit key (nat ((2 * int n) XOR 7)) else bit (s_odd s) (n - 24))"
  "bit (s_even (crypto1_init_loop 47 s key)) n
     \<longleftrightarrow> n < 32 \<and> (if n < 24 then bit key (nat ((2 * int n + 1) XOR 7)) else bit (s_even s) (n - 24))"
  using init_loop_bits [of 24 s key n] by simp_all

lemma get_lfsr_loop_bits:
  "bit (crypto1_get_lfsr_loop (int k - 1) s l) n
     \<longleftrightarrow> n < 64 \<and>
         (if n < 2 * k
          then (if odd n then bit (s_odd s) (nat (int (n div 2) XOR 3))
                else bit (s_even s) (nat (int (n div 2) XOR 3)))
          else bit l (n - 2 * k))"
proof (induction k arbitrary: l n)
  case 0
  show ?case by (subst crypto1_get_lfsr_loop.simps) (auto dest: bit_imp_le_length)
next
  case (Suc k)
  have i: "int (Suc k) - 1 - 1 = int k - 1" "int (Suc k) - 1 = int k" by simp_all
  consider "n < 2 * k" | "n = 2 * k" | "n = 2 * k + 1" | "n \<ge> 2 * k + 2" by linarith
  then show ?case
  proof cases
    case 1
    then show ?thesis
      by (subst crypto1_get_lfsr_loop.simps) (simp add: i Suc.IH shift_in64 Let_def)
  next
    case 2
    then show ?thesis
      by (subst crypto1_get_lfsr_loop.simps) (simp add: i Suc.IH shift_in64 Let_def)
  next
    case 3
    then show ?thesis
      by (subst crypto1_get_lfsr_loop.simps) (simp add: i Suc.IH shift_in64 Let_def)
  next
    case 4
    then have "n - 2 * k = Suc (Suc (n - 2 * Suc k))" by simp
    with 4 show ?thesis
      by (subst crypto1_get_lfsr_loop.simps) (auto simp add: i Suc.IH shift_in64 Let_def)
  qed
qed

lemma xor_index_facts:
  "\<forall>j \<in> {0..<24::nat}.
     nat (int j XOR 3) < 24
     \<and> nat ((2 * int (nat (int j XOR 3))) XOR 7) = 2 * j + 1
     \<and> nat ((2 * int (nat (int j XOR 3)) + 1) XOR 7) = 2 * j"
  by (simp add: atLeastLessThan_nat_numeral)

lemma get_lfsr_init:
  assumes "(K::u64) < 2 ^ 48"
  shows "crypto1_get_lfsr (crypto1_init_loop 47 \<lparr> s_odd = 0, s_even = 0 \<rparr> K) = K"
proof (rule bit_word_eqI)
  fix n assume "n < LENGTH(64)"
  let ?s = "crypto1_init_loop 47 \<lparr> s_odd = 0, s_even = 0 \<rparr> K"
  have get: "crypto1_get_lfsr ?s = crypto1_get_lfsr_loop (int 24 - 1) ?s 0"
    by (simp add: crypto1_get_lfsr_def)
  show "bit (crypto1_get_lfsr ?s) n = bit K n"
  proof (cases "n < 48")
    case False
    with assms have "\<not> bit K n" using bit_lt_2p [of K 48 n] by blast
    with False show ?thesis unfolding get get_lfsr_loop_bits by simp
  next
    case True
    then have j: "n div 2 \<in> {0..<24}" by auto
    note f = xor_index_facts [rule_format, OF j]
    have n: "n = (if odd n then 2 * (n div 2) + 1 else 2 * (n div 2))"
      by (auto elim: oddE)
    show ?thesis
      unfolding get get_lfsr_loop_bits
      apply (subst (3) n)
      using True f
      apply (auto simp add: init_47_bits)
      done
  qed
qed

text \<open>
  C8: for every 48-bit key \<open>K\<close>, initialising a state with \<open>crypto1_init\<close> and exporting it
  with \<open>crypto1_get_lfsr\<close> yields exactly \<open>K\<close>.
\<close>

theorem C8_get_lfsr_init:
  "K < 2 ^ 48 \<Longrightarrow> map_option crypto1_get_lfsr (crypto1_init (Some s) K) = Some K"
  by (simp add: crypto1_init_def get_lfsr_init)

theorem C8_get_lfsr_init_witness:
  "(0xA0A1A2A3A4A5 :: u64) < 2 ^ 48
   \<and> map_option crypto1_get_lfsr
        (crypto1_init (Some \<lparr> s_odd = 7, s_even = 9 \<rparr>) 0xA0A1A2A3A4A5) = Some 0xA0A1A2A3A4A5"
  using C8_get_lfsr_init [of "0xA0A1A2A3A4A5" "\<lparr> s_odd = 7, s_even = 9 \<rparr>"]
  by simp

section \<open>Width of the two halves\<close>

lemma init_loop_24bit:
  "drop_bit 24 (s_odd (crypto1_init_loop 47 \<lparr> s_odd = 0, s_even = 0 \<rparr> key)) = 0"
  "drop_bit 24 (s_even (crypto1_init_loop 47 \<lparr> s_odd = 0, s_even = 0 \<rparr> key)) = 0"
  by (rule bit_word_eqI, simp add: bit_drop_bit_eq init_47_bits)+

lemma drop_bit_0_iff: "drop_bit k (x::u32) = 0 \<longleftrightarrow> (\<forall>n. bit x n \<longrightarrow> n < k)"
proof
  assume z: "drop_bit k x = 0"
  show "\<forall>n. bit x n \<longrightarrow> n < k"
  proof (intro allI impI)
    fix n assume b: "bit x n"
    show "n < k"
    proof (rule ccontr)
      assume "\<not> n < k"
      then have "n = k + (n - k)" by simp
      with b have "bit (drop_bit k x) (n - k)" by (simp add: bit_drop_bit_eq)
      with z show False by simp
    qed
  qed
next
  assume a: "\<forall>n. bit x n \<longrightarrow> n < k"
  show "drop_bit k x = 0"
  proof (rule bit_word_eqI)
    fix n
    from a have "\<not> bit x (k + n)" by auto
    then show "bit (drop_bit k x) n = bit (0::u32) n" by (simp add: bit_drop_bit_eq)
  qed
qed

lemma crypto1_bit_even_24: "bit (s_even (fst (crypto1_bit s inp e))) 24 = bit (s_odd s) 23"
  using crypto1_bit_even_bits [of s inp e 23] by simp

text \<open>
  C3, as stated, fails: \<open>crypto1_bit\<close> does not mask the new even half. From the state
  \<open>odd = 0x800000\<close>, \<open>even = 0\<close> (both below \<open>2^24\<close>) one clock leaves bit 24 of the even
  half set.
\<close>

theorem C3_counterexample:
  "drop_bit 24 (s_odd \<lparr> s_odd = 0x800000, s_even = 0 \<rparr>) = 0
   \<and> drop_bit 24 (s_even \<lparr> s_odd = 0x800000, s_even = 0 \<rparr>) = 0
   \<and> drop_bit 24 (s_even (fst (crypto1_bit \<lparr> s_odd = 0x800000, s_even = 0 \<rparr> 0 0))) \<noteq> 0"
proof -
  have "bit (s_even (fst (crypto1_bit \<lparr> s_odd = 0x800000, s_even = 0 \<rparr> 0 0))) 24"
    unfolding crypto1_bit_even_24 by simp
  then have "drop_bit 24 (s_even (fst (crypto1_bit \<lparr> s_odd = 0x800000, s_even = 0 \<rparr> 0 0))) \<noteq> 0"
    unfolding drop_bit_0_iff by auto
  then show ?thesis by simp
qed

text \<open>
  C3, amended: for every state whose halves both have all bits above bit 23 zero, after
  one \<open>crypto1_bit\<close> call the new odd half again has all bits above bit 23 zero, while the
  new even half is not masked: its bits above bit 24 are zero and its bit 24 is bit 23 of
  the old odd half. \<open>crypto1_init\<close> establishes the 24-bit width of both halves for every
  key.
\<close>

theorem C3_half_width:
  assumes "drop_bit 24 (s_odd s) = 0" and "drop_bit 24 (s_even s) = 0"
  shows "drop_bit 24 (s_odd (fst (crypto1_bit s inp e))) = 0
       \<and> drop_bit 25 (s_even (fst (crypto1_bit s inp e))) = 0
       \<and> bit (s_even (fst (crypto1_bit s inp e))) 24 = bit (s_odd s) 23
       \<and> map_option (\<lambda>s'. (drop_bit 24 (s_odd s'), drop_bit 24 (s_even s')))
            (crypto1_init (Some s) key) = Some (0, 0)"
proof -
  have "drop_bit 25 (s_even (fst (crypto1_bit s inp e))) = 0"
    unfolding drop_bit_0_iff
  proof (intro allI impI)
    fix n assume b: "bit (s_even (fst (crypto1_bit s inp e))) n"
    show "n < 25"
    proof (cases n)
      case 0
      then show ?thesis by simp
    next
      case (Suc m)
      with b have "bit (s_odd s) m" by (simp add: crypto1_bit_even_bits)
      with assms(1) have "m < 24" unfolding drop_bit_0_iff by blast
      with Suc show ?thesis by simp
    qed
  qed
  then show ?thesis
    using assms
    by (simp add: crypto1_bit_odd crypto1_bit_even_24 crypto1_init_def init_loop_24bit)
qed

theorem C3_half_width_witness:
  "drop_bit 24 (s_odd \<lparr> s_odd = 0x923456, s_even = 0xABCDEF \<rparr>) = 0
   \<and> drop_bit 24 (s_even \<lparr> s_odd = 0x923456, s_even = 0xABCDEF \<rparr>) = 0
   \<and> drop_bit 24 (s_odd (fst (crypto1_bit \<lparr> s_odd = 0x923456, s_even = 0xABCDEF \<rparr> 1 0))) = 0
   \<and> drop_bit 25 (s_even (fst (crypto1_bit \<lparr> s_odd = 0x923456, s_even = 0xABCDEF \<rparr> 1 0))) = 0
   \<and> bit (s_even (fst (crypto1_bit \<lparr> s_odd = 0x923456, s_even = 0xABCDEF \<rparr> 1 0))) 24
   \<and> map_option (\<lambda>s'. (drop_bit 24 (s_odd s'), drop_bit 24 (s_even s')))
        (crypto1_init (Some \<lparr> s_odd = 0x923456, s_even = 0xABCDEF \<rparr>) 0xA0A1A2A3A4A5)
       = Some (0, 0)"
  using C3_half_width [where s = "\<lparr> s_odd = 0x923456, s_even = 0xABCDEF \<rparr>"
      and inp = 1 and e = 0 and key = "0xA0A1A2A3A4A5"]
  by simp

section \<open>The tag PRNG in chunks\<close>

lemma prng_step_bits:
  "bit (prng_step X) n \<longleftrightarrow> (if n < 31 then bit X (Suc n) else n = 31 \<and> fbit X 0)"
proof -
  have 1: "bit (drop_bit 1 X) n \<longleftrightarrow> bit X (Suc n)" by (simp add: bit_drop_bit_eq)
  have 2: "bit (push_bit 31 (drop_bit 16 X XOR drop_bit 18 X XOR drop_bit 19 X XOR drop_bit 21 X)) n
      \<longleftrightarrow> n = 31 \<and> fbit X 0"
    by (auto simp: bit_push_bit_iff bit_xor_iff bit_drop_bit_eq fbit_def)
  show ?thesis
    unfolding prng_step_def bit_or_iff 1 2
    by (auto dest: bit_imp_le_length)
qed

lemma prng_step_funpow_bits:
  "m \<le> 11 \<Longrightarrow> bit ((prng_step ^^ m) T) n \<longleftrightarrow>
     n < 32 \<and> (if n + m < 32 then bit T (n + m) else fbit T (n + m - 32))"
proof (induction m arbitrary: n)
  case 0
  then show ?case by (auto dest: bit_imp_le_length)
next
  case (Suc m)
  then have m: "m \<le> 10" by simp
  have f: "fbit ((prng_step ^^ m) T) 0 = fbit T m"
    using m by (simp add: fbit_def Suc.IH)
  consider "n < 31" | "n = 31" | "n \<ge> 32" by linarith
  then show ?case
  proof cases
    case 1
    with m show ?thesis by (simp add: prng_step_bits Suc.IH)
  next
    case 2
    with m show ?thesis by (simp add: prng_step_bits f)
  next
    case 3
    with m show ?thesis by (simp add: prng_step_bits)
  qed
qed

lemma chunk_bits:
  "0 < k \<Longrightarrow> k \<le> 11 \<Longrightarrow> bit (chunk k T) n \<longleftrightarrow>
     n < 32 \<and> (if n + k < 32 then bit T (n + k) else fbit T (n + k - 32))"
  unfolding chunk_def Let_def
  by (auto simp: bit_or_iff bit_push_bit_iff bit_xor_iff bit_drop_bit_eq bit_ucast_iff fbit_def
      add.commute dest: bit_imp_le_length)


lemma chunk_funpow: "0 < k \<Longrightarrow> k \<le> 11 \<Longrightarrow> chunk k T = (prng_step ^^ k) T"
  by (rule bit_word_eqI) (simp only: chunk_bits prng_step_funpow_bits)

lemma Crypto1PRNG_body_chunks: "Crypto1PRNG_body T = chunk 10 (chunk 11 (chunk 11 T))"
  by (simp add: Crypto1PRNG_body_def chunk_def Let_def)

lemma Crypto1PRNG_body_funpow: "Crypto1PRNG_body T = (prng_step ^^ 32) T"
proof -
  have "(prng_step ^^ 32) T = (prng_step ^^ (10 + (11 + 11))) T" by simp
  also have "\<dots> = (prng_step ^^ 10) ((prng_step ^^ 11) ((prng_step ^^ 11) T))"
    by (simp only: funpow_add o_apply)
  finally show ?thesis
    by (simp only: Crypto1PRNG_body_chunks chunk_funpow [symmetric] simp_thms)
qed

lemma Crypto1PRNG_loop_funpow:
  "Crypto1PRNG_loop T cc = (prng_step ^^ (32 * (unat cc div 32))) T"
proof (induction T cc rule: Crypto1PRNG_loop.induct)
  case (1 T cc)
  show ?case
  proof (cases "cc \<ge> 32")
    case False
    then have "unat cc div 32 = 0" by (simp add: word_le_nat_alt)
    with False show ?thesis by (subst Crypto1PRNG_loop.simps) simp
  next
    case True
    then have u: "unat (cc - 32) = unat cc - 32" "32 \<le> unat cc"
      by (simp_all add: unat_sub word_le_nat_alt)
    then have d: "unat cc div 32 = Suc (unat (cc - 32) div 32)"
      by (simp add: le_div_geq)
    have "Crypto1PRNG_loop T cc = Crypto1PRNG_loop (Crypto1PRNG_body T) (cc - 32)"
      using True by (subst Crypto1PRNG_loop.simps) simp
    also have "\<dots> = (prng_step ^^ (32 * (unat (cc - 32) div 32))) ((prng_step ^^ 32) T)"
      using 1 [OF True] by (simp only: Crypto1PRNG_body_funpow)
    also have "\<dots> = (prng_step ^^ (32 * (unat (cc - 32) div 32) + 32)) T"
      by (simp only: funpow_add o_apply)
    finally have r: "Crypto1PRNG_loop T cc = (prng_step ^^ (32 * (unat (cc - 32) div 32) + 32)) T" .
    have e: "32 * (unat cc div 32) = 32 * (unat (cc - 32) div 32) + 32" using d by simp
    show ?thesis unfolding e by (rule r)
  qed
qed

lemma be32_eq:
  "be32 xs = push_bit 24 (ucast (xs ! 0)) OR push_bit 16 (ucast (xs ! 1))
               OR push_bit 8 (ucast (xs ! 2)) OR ucast (xs ! 3)"
  unfolding be32_def bytes_to_num_def
  by (simp add: ucast_up_ucast_id is_up)

lemma bit_u8_ge: "8 \<le> m \<Longrightarrow> \<not> bit (d::u8) m"
  using bit_imp_le_length [of d m] by auto

lemma bit_FF00: "bit (0xFF00::int) n \<longleftrightarrow> 8 \<le> n \<and> n < 16"
proof -
  have e: "(0xFF00::int) = push_bit 8 (mask 8)" by (simp add: mask_eq_exp_minus_1)
  show ?thesis
    by (subst e, simp only: bit_push_bit_iff bit_mask_iff possible_bit_int) auto
qed

lemma bit_FF0000: "bit (0xFF0000::int) n \<longleftrightarrow> 16 \<le> n \<and> n < 24"
proof -
  have e: "(0xFF0000::int) = push_bit 16 (mask 8)" by (simp add: mask_eq_exp_minus_1)
  show ?thesis
    by (subst e, simp only: bit_push_bit_iff bit_mask_iff possible_bit_int) auto
qed

lemma byte_lanes:
  assumes "(n::nat) < 32"
  obtains "n < 8" | m where "n = 8 + m" "m < 8" | m where "n = 16 + m" "m < 8"
    | m where "n = 24 + m" "m < 8"
proof -
  consider "n < 8" | "8 \<le> n" "n < 16" | "16 \<le> n" "n < 24" | "24 \<le> n" "n < 32"
    using assms by linarith
  then show ?thesis
  proof cases
    case 1 then show ?thesis by (rule that(1))
  next
    case 2 then show ?thesis by (intro that(2) [of "n - 8"]) simp_all
  next
    case 3 then show ?thesis by (intro that(3) [of "n - 16"]) simp_all
  next
    case 4 then show ?thesis by (intro that(4) [of "n - 24"]) simp_all
  qed
qed

lemma REV_bytes:
  "REV (push_bit 24 (ucast (a::u8)) OR push_bit 16 (ucast (b::u8))
               OR push_bit 8 (ucast (c::u8)) OR ucast (d::u8))
   = ucast a OR push_bit 8 (ucast b) OR push_bit 16 (ucast c) OR push_bit 24 (ucast d)"
proof (rule bit_word_eqI)
  fix n assume "n < LENGTH(32)"
  then have "n < 32" by simp
  then show "bit (REV (push_bit 24 (ucast a) OR push_bit 16 (ucast b)
               OR push_bit 8 (ucast c) OR ucast d)) n
     = bit (ucast a OR push_bit 8 (ucast b) OR push_bit 16 (ucast c) OR push_bit 24 (ucast d) :: u32) n"
    unfolding REV_def
    apply (cases rule: byte_lanes)
       apply (simp_all add: bit_simps bit_u8_ge bit_FF00 bit_FF0000)
    done
qed

lemma bytes_of_word:
  "push_bit 24 (ucast (ucast (drop_bit 24 T) :: u8)) OR push_bit 16 (ucast (ucast (drop_bit 16 T) :: u8))
     OR push_bit 8 (ucast (ucast (drop_bit 8 T) :: u8)) OR ucast (ucast T :: u8) = (T::u32)"
proof (rule bit_word_eqI)
  fix n assume "n < LENGTH(32)"
  then have "n < 32" by simp
  then show "bit (push_bit 24 (ucast (ucast (drop_bit 24 T) :: u8)) OR push_bit 16 (ucast (ucast (drop_bit 16 T) :: u8))
     OR push_bit 8 (ucast (ucast (drop_bit 8 T) :: u8)) OR ucast (ucast T :: u8) :: u32) n = bit T n"
    by (cases rule: byte_lanes) (simp_all add: bit_simps add.commute)
qed

lemma ucast_LE_byte0:
  "ucast (ucast (a::u8) OR push_bit 8 (ucast (b::u8)) OR push_bit 16 (ucast (c::u8))
          OR push_bit 24 (ucast (d::u8)) :: u32) = a"
  by (rule bit_word_eqI) (simp add: bit_simps bit_u8_ge)

lemma ucast_LE_byte1:
  "ucast (drop_bit 8 (ucast (a::u8) OR push_bit 8 (ucast (b::u8)) OR push_bit 16 (ucast (c::u8))
          OR push_bit 24 (ucast (d::u8)) :: u32)) = b"
  by (rule bit_word_eqI) (simp add: bit_simps bit_u8_ge)

lemma ucast_LE_byte2:
  "ucast (drop_bit 16 (ucast (a::u8) OR push_bit 8 (ucast (b::u8)) OR push_bit 16 (ucast (c::u8))
          OR push_bit 24 (ucast (d::u8)) :: u32)) = c"
  by (rule bit_word_eqI) (simp add: bit_simps bit_u8_ge)

lemma ucast_LE_byte3:
  "ucast (drop_bit 24 (ucast (a::u8) OR push_bit 8 (ucast (b::u8)) OR push_bit 16 (ucast (c::u8))
          OR push_bit 24 (ucast (d::u8)) :: u32)) = d"
  by (rule bit_word_eqI) (simp add: bit_simps bit_u8_ge)

lemmas ucast_LE_bytes = ucast_LE_byte0 ucast_LE_byte1 ucast_LE_byte2 ucast_LE_byte3

lemma length4E:
  assumes "length xs = 4"
  obtains a b c d where "xs = [a, b, c, d]"
proof -
  from assms obtain a b c d where "xs = [a, b, c, d]"
    by (auto simp: length_Suc_conv numeral_eq_Suc)
  then show ?thesis by (rule that)
qed

lemma REV_be32:
  "REV (be32 xs) = ucast (xs ! 0) OR push_bit 8 (ucast (xs ! 1))
                 OR push_bit 16 (ucast (xs ! 2)) OR push_bit 24 (ucast (xs ! 3))"
  unfolding be32_eq by (rule REV_bytes)

lemma be32_store:
  assumes "length xs = 4"
  shows "be32 (xs[0 := ucast T, 1 := ucast (drop_bit 8 T), 2 := ucast (drop_bit 16 T),
            3 := ucast (drop_bit 24 T)]) = REV (T::u32)"
proof -
  have "REV T = REV (push_bit 24 (ucast (ucast (drop_bit 24 T) :: u8))
      OR push_bit 16 (ucast (ucast (drop_bit 16 T) :: u8))
      OR push_bit 8 (ucast (ucast (drop_bit 8 T) :: u8)) OR ucast (ucast T :: u8))"
    by (simp only: bytes_of_word)
  also have "\<dots> = ucast (ucast (drop_bit 24 T) :: u8)
      OR push_bit 8 (ucast (ucast (drop_bit 16 T) :: u8))
      OR push_bit 16 (ucast (ucast (drop_bit 8 T) :: u8)) OR push_bit 24 (ucast (ucast T :: u8))"
    by (rule REV_bytes)
  finally show ?thesis
    using assms by (simp add: be32_eq ac_simps)
qed

lemma Crypto1PRNG_be32:
  assumes "length State = 4"
  shows "be32 (Crypto1PRNG State cc) = prng_successor (be32 State) (of_nat (32 * (unat cc div 32)))"
proof -
  have "unat cc < 256" using unsigned_less [of cc, where 'a = nat] by simp
  then have "32 * (unat cc div 32) < 2 ^ LENGTH(32)" by simp
  moreover have "unat (of_nat N :: u32) = N" if "N < 2 ^ LENGTH(32)" for N
    using that by (simp add: unat_of_nat)
  ultimately have u: "unat (of_nat (32 * (unat cc div 32)) :: u32) = 32 * (unat cc div 32)"
    by blast
  show ?thesis
    unfolding Crypto1PRNG_def Let_def be32_store [OF assms] prng_successor_funpow u
      Crypto1PRNG_loop_funpow REV_be32 ..
qed

lemma Crypto1PRNG_small:
  assumes "length State = 4" and "cc < 32"
  shows "Crypto1PRNG State cc = State"
proof -
  from assms(1) obtain a b c d where s: "State = [a, b, c, d]" by (rule length4E)
  have l: "Crypto1PRNG_loop T cc = T" for T
    using assms(2) by (subst Crypto1PRNG_loop.simps) (simp add: not_le [symmetric])
  have n: "[a, b, c, d] ! 0 = a" "[a, b, c, d] ! 1 = b" "[a, b, c, d] ! 2 = c"
    "[a, b, c, d] ! 3 = d" by simp_all
  show ?thesis
    unfolding Crypto1PRNG_def Let_def l s n ucast_LE_bytes by simp
qed

text \<open>
  C10: for every 4-byte PRNG state and every \<open>ClockCount\<close>, \<open>Crypto1PRNG\<close> advances the
  value held big-endian in the array by exactly \<open>32 * (ClockCount div 32)\<close> steps of
  \<open>prng_successor\<close>; one pass of the three chunked updates (11 + 11 + 10 bits) equals 32
  applications of the single-bit step; for \<open>ClockCount < 32\<close> the array is unchanged.
\<close>

theorem C10_Crypto1PRNG:
  assumes "length State = 4"
  shows "be32 (Crypto1PRNG State ClockCount)
           = prng_successor (be32 State) (of_nat (32 * (unat ClockCount div 32)))
       \<and> Crypto1PRNG_body Temp = (prng_step ^^ 32) Temp
       \<and> (ClockCount < 32 \<longrightarrow> Crypto1PRNG State ClockCount = State)"
  using Crypto1PRNG_be32 [OF assms, of ClockCount] Crypto1PRNG_body_funpow [of Temp]
    Crypto1PRNG_small [OF assms, of ClockCount]
  by blast

theorem C10_Crypto1PRNG_witness:
  "length [0x01, 0x02, 0x03, 0x04 :: u8] = 4
   \<and> (31::u8) < 32
   \<and> be32 (Crypto1PRNG [0x01, 0x02, 0x03, 0x04] 31)
       = prng_successor (be32 [0x01, 0x02, 0x03, 0x04]) (of_nat (32 * (unat (31::u8) div 32)))
   \<and> Crypto1PRNG [0x01, 0x02, 0x03, 0x04] 31 = [0x01, 0x02, 0x03, 0x04]"
proof -
  have h: "length [0x01, 0x02, 0x03, 0x04 :: u8] = 4" "(31::u8) < 32" by simp_all
  show ?thesis
    using h C10_Crypto1PRNG [where State = "[0x01, 0x02, 0x03, 0x04]" and ClockCount = 31
        and Temp = 0, OF h(1)]
    by blast
qed

section \<open>The two filter implementations\<close>

lemma take_bit_4_nat:
  "take_bit 4 (n::nat) = (if bit n 0 then 1 else 0) + (if bit n 1 then 2 else 0)
       + (if bit n 2 then 4 else 0) + (if bit n 3 then 8 else 0)"
proof -
  have "take_bit (Suc (Suc (Suc (Suc 0)))) n = (if bit n 0 then 1 else 0) + (if bit n (Suc 0) then 2 else 0)
       + (if bit n (Suc (Suc 0)) then 4 else 0) + (if bit n (Suc (Suc (Suc 0))) then 8 else 0)"
    by (simp add: take_bit_Suc bit_Suc bit_0 mod_2_eq_odd)
  then show ?thesis by (simp add: numeral_eq_Suc)
qed

lemma unat_nibble:
  "unat ((w::u32) AND 0xf) = (if bit w 0 then 1 else 0) + (if bit w 1 then 2 else 0)
       + (if bit w 2 then 4 else 0) + (if bit w 3 then 8 else 0)"
proof -
  have "(0xf::u32) = mask 4" by (simp add: mask_eq_exp_minus_1)
  then have "unat (w AND 0xf) = take_bit 4 (unat w)"
    by (simp only: take_bit_eq_mask [symmetric] unsigned_take_bit_eq)
  then show ?thesis
    by (simp only: take_bit_4_nat bit_unsigned_iff) simp
qed

lemma reg24_value_bits:
  "bit (reg24_value (b0, b1, b2)) m \<longleftrightarrow>
     (if m < 8 then bit b0 m else if m < 16 then bit b1 (m - 8) else m < 24 \<and> bit b2 (m - 16))"
  unfolding reg24_value_def
  by (auto simp: bit_simps dest: bit_imp_le_length)

lemma packed_bits:
  "bit (packed_of_bytes (b0, b1, b2)) n \<longleftrightarrow>
     n < 24 \<and> (if n < 8 then bit b2 (7 - n) else if n < 16 then bit b1 (15 - n) else bit b0 (23 - n))"
  unfolding packed_of_bytes_def
  by (auto simp: bit_simps reg24_value_bits)


lemma nibbles_packed:
  "unat (packed_of_bytes (b0, b1, b2) AND 0xf) = nibrev (drop_bit 4 b2)"
  "unat (drop_bit 4 (packed_of_bytes (b0, b1, b2)) AND 0xf) = nibrev b2"
  "unat (drop_bit 8 (packed_of_bytes (b0, b1, b2)) AND 0xf) = nibrev (drop_bit 4 b1)"
  "unat (drop_bit 12 (packed_of_bytes (b0, b1, b2)) AND 0xf) = nibrev b1"
  "unat (drop_bit 16 (packed_of_bytes (b0, b1, b2)) AND 0xf) = nibrev (drop_bit 4 b0)"
  by (simp_all add: unat_nibble nibrev_def bit_drop_bit_eq packed_bits)

lemma and_bit_cases:
  "(w::u32) AND 16 = 0 \<or> w AND 16 = 16"
  "(w::u32) AND 8 = 0 \<or> w AND 8 = 8"
  "(w::u32) AND 4 = 0 \<or> w AND 4 = 4"
  "(w::u32) AND 2 = 0 \<or> w AND 2 = 2"
  "(w::u32) AND 1 = 0 \<or> w AND 1 = 1"
proof -
  have p: "(w::u32) AND 2 ^ k = 0 \<or> w AND 2 ^ k = 2 ^ k" for k
  proof (cases "bit w k")
    case True
    have "w AND 2 ^ k = 2 ^ k"
      by (rule bit_word_eqI) (use True in \<open>auto simp: bit_and_iff bit_exp_iff\<close>)
    then show ?thesis ..
  next
    case False
    have "w AND 2 ^ k = 0"
      by (rule bit_word_eqI) (use False in \<open>auto simp: bit_and_iff bit_exp_iff\<close>)
    then show ?thesis ..
  qed
  show "w AND 16 = 0 \<or> w AND 16 = 16" using p [of 4] by simp
  show "w AND 8 = 0 \<or> w AND 8 = 8" using p [of 3] by simp
  show "w AND 4 = 0 \<or> w AND 4 = 4" using p [of 2] by simp
  show "w AND 2 = 0 \<or> w AND 2 = 2" using p [of 1] by simp
  show "w AND 1 = 0 \<or> w AND 1 = 1" using p [of 0] by simp
qed

lemma assemble_C0:
  "\<lbrakk>a = 0 \<or> a = 16; b = 0 \<or> b = 8; c = 0 \<or> c = 4; d = 0 \<or> d = 2; e = 0 \<or> e = 1\<rbrakk> \<Longrightarrow>
   TableC0 ! unat (ucast e OR ucast (c OR d) OR ucast (a OR b) :: u8)
     = ucast (BIT (0xEC57E80A :: u32) (unat ((((a OR b) OR c) OR d) OR (e::u32))))"
  by (elim disjE; simp add: TableC0_def FC_def BIT_def)

lemma assemble_C3:
  "\<lbrakk>a = 0 \<or> a = 16; b = 0 \<or> b = 8; c = 0 \<or> c = 4; d = 0 \<or> d = 2; e = 0 \<or> e = 1\<rbrakk> \<Longrightarrow>
   TableC3 ! unat (ucast e OR ucast (c OR d) OR ucast (a OR b) :: u8)
     = push_bit 3 (ucast (BIT (0xEC57E80A :: u32) (unat ((((a OR b) OR c) OR d) OR (e::u32)))))"
  by (elim disjE; simp add: TableC3_def FC_def BIT_def)

lemma assemble_C7:
  "\<lbrakk>a = 0 \<or> a = 16; b = 0 \<or> b = 8; c = 0 \<or> c = 4; d = 0 \<or> d = 2; e = 0 \<or> e = 1\<rbrakk> \<Longrightarrow>
   TableC7 ! unat (ucast e OR ucast (c OR d) OR ucast (a OR b) :: u8)
     = push_bit 7 (ucast (BIT (0xEC57E80A :: u32) (unat ((((a OR b) OR c) OR d) OR (e::u32)))))"
  by (elim disjE; simp add: TableC7_def FC_def BIT_def)


lemma row0: "abFilterTable0 = map (\<lambda>n. filter_row0 (of_nat n)) [0..<256]"
  by (simp add: abFilterTable0_def filter_row0_def nibrev_def upt_conv_Cons)

lemma row1: "abFilterTable1 = map (\<lambda>n. filter_row1 (of_nat n)) [0..<256]"
  by (simp add: abFilterTable1_def filter_row1_def nibrev_def upt_conv_Cons)

lemma row2: "abFilterTable2 = map (\<lambda>n. filter_row2 (of_nat n)) [0..<256]"
  by (simp add: abFilterTable2_def filter_row2_def nibrev_def upt_conv_Cons)

lemma nth_byte_map: "map (\<lambda>n. f (of_nat n)) [0..<256] ! unat (b::u8) = f b"
proof -
  have "unat b < 256" using unsigned_less [of b, where 'a = nat] by simp
  then show ?thesis by simp
qed

lemma abFilterTable_nth:
  "abFilterTable0 ! unat b = filter_row0 b"
  "abFilterTable1 ! unat b = filter_row1 b"
  "abFilterTable2 ! unat b = filter_row2 b"
  unfolding row0 row1 row2 by (rule nth_byte_map)+

lemma filter_index:
  "abFilterTable0 ! unat O0 OR abFilterTable1 ! unat O1 OR abFilterTable2 ! unat O2
   = ucast (drop_bit (nibrev (drop_bit 4 O0)) (0x0d938 :: u32) AND 1)
     OR ucast ((drop_bit (nibrev (drop_bit 4 O1)) (0x3c8b0 :: u32) AND 4)
               OR (drop_bit (nibrev O1) (0x1e458 :: u32) AND 2))
     OR ucast ((drop_bit (nibrev (drop_bit 4 O2)) (0xf22c0 :: u32) AND 16)
               OR (drop_bit (nibrev O2) (0x6c9c0 :: u32) AND 8))"
  unfolding abFilterTable_nth filter_row0_def filter_row1_def filter_row2_def ..

lemma filter_crapto1_packed:
  "filter_crapto1 (packed_of_bytes (O0, O1, O2))
   = BIT (0xEC57E80A :: u32)
       (unat (((((drop_bit (nibrev (drop_bit 4 O2)) (0xf22c0 :: u32) AND 16)
              OR (drop_bit (nibrev O2) (0x6c9c0 :: u32) AND 8))
              OR (drop_bit (nibrev (drop_bit 4 O1)) (0x3c8b0 :: u32) AND 4))
              OR (drop_bit (nibrev O1) (0x1e458 :: u32) AND 2))
              OR (drop_bit (nibrev (drop_bit 4 O0)) (0x0d938 :: u32) AND 1)))"
  unfolding filter_crapto1_def Let_def nibbles_packed ..

text \<open>
  C6: the table-driven filter and the bit-math filter agree on every input. For all byte
  registers \<open>(O0, O1, O2)\<close>, \<open>TableC0\<close> indexed by the three \<open>abFilterTable\<close> rows is
  \<open>filter\<close> of the packed value that holds the same half, and the \<open>TableC3\<close> and
  \<open>TableC7\<close> variants are that bit at positions 3 and 7.
\<close>

theorem C6_filter_tables_agree:
  "CRYPTO1_FILTER_OUTPUT_B0_24 O0 O1 O2 = ucast (filter_crapto1 (packed_of_bytes (O0, O1, O2)))
   \<and> CRYPTO1_FILTER_OUTPUT_B3_24 O0 O1 O2
       = push_bit 3 (ucast (filter_crapto1 (packed_of_bytes (O0, O1, O2))))
   \<and> CRYPTO1_FILTER_OUTPUT_B7_24 O0 O1 O2
       = push_bit 7 (ucast (filter_crapto1 (packed_of_bytes (O0, O1, O2))))"
  unfolding CRYPTO1_FILTER_OUTPUT_B0_24_def CRYPTO1_FILTER_OUTPUT_B3_24_def
    CRYPTO1_FILTER_OUTPUT_B7_24_def filter_index filter_crapto1_packed
  by (intro conjI assemble_C0 assemble_C3 assemble_C7 and_bit_cases)

end
